theory Spec2Isabelle
  imports Complex_Main
begin

section \<open>Values exchanged with the page and the query service\<close>

text \<open>
  A JavaScript number is a finite value, \<open>NaN\<close> or one of the two infinities. The finite
  values are kept as reals: the program only compares them with \<open>0\<close> and with \<open>4326\<close> and
  prints them, it never does arithmetic on them.
\<close>

datatype jsnum = Num real | NaN | PosInf | NegInf

text \<open>\<^verbatim>\<open>Number.isFinite(x)\<close>, \<^verbatim>\<open>x > 0\<close> and \<^verbatim>\<open>x <= 0\<close> on a number.\<close>

fun isFinite :: "jsnum \<Rightarrow> bool" where
  "isFinite (Num x) = True"
| "isFinite NaN = False"
| "isFinite PosInf = False"
| "isFinite NegInf = False"

fun gt0 :: "jsnum \<Rightarrow> bool" where
  "gt0 (Num x) = (0 < x)"
| "gt0 NaN = False"
| "gt0 PosInf = True"
| "gt0 NegInf = False"

fun le0 :: "jsnum \<Rightarrow> bool" where
  "le0 (Num x) = (x \<le> 0)"
| "le0 NaN = False"
| "le0 PosInf = False"
| "le0 NegInf = True"

datatype json =
    JNull
  | JBool bool
  | JNum jsnum
  | JStr string
  | JArr "json list"
  | JObj "(string \<times> json) list"

text \<open>
  A record of a reply (one element of \<^verbatim>\<open>rows\<close>) maps column names to values; a column
  that is absent reads as \<^verbatim>\<open>undefined\<close>, which is \<open>None\<close> here.
\<close>

type_synonym row = "string \<rightharpoonup> json"

text \<open>
  The \<^verbatim>\<open>rows\<close> member of a reply of the query service: \<open>None\<close> when the reply has
  no such member; an element that is \<^verbatim>\<open>null\<close> (not a record) is \<open>None\<close>.
\<close>

type_synonym reply = "row option list option"

record bbox =
  west :: jsnum
  south :: jsnum
  east :: jsnum
  north :: jsnum

record feature =
  geometry :: json
  properties :: row

text \<open>The layer objects built by \<^verbatim>\<open>loadLayerCatalog\<close>.\<close>

record layer =
  schema :: string
  name :: string
  full :: string
  geomCol :: string
  geomCount :: "jsnum option"

text \<open>
  What the program takes from its surroundings: the query service (the reply to the
  \<open>n\<close>-th request sent, which may be a failure with its message), JavaScript's
  \<^verbatim>\<open>Number(v)\<close> on strings, arrays and objects, its printing of a number inside a
  template string, \<^verbatim>\<open>JSON.parse\<close> (\<open>None\<close> when it throws), and the viewport that
  Leaflet settles on when asked to fit given bounds.
\<close>

record env =
  remote :: "nat \<Rightarrow> string \<Rightarrow> string + reply"
  coerceNumber :: "json \<Rightarrow> jsnum"
  numberText :: "jsnum \<Rightarrow> string"
  jsonParse :: "string \<Rightarrow> json option"
  fitView :: "bbox \<Rightarrow> bbox"

text \<open>\<^verbatim>\<open>Number(v)\<close>; \<open>None\<close> is \<^verbatim>\<open>undefined\<close>.\<close>

fun toNumber :: "env \<Rightarrow> json option \<Rightarrow> jsnum" where
  "toNumber E None = NaN"
| "toNumber E (Some JNull) = Num 0"
| "toNumber E (Some (JBool b)) = (if b then Num 1 else Num 0)"
| "toNumber E (Some (JNum n)) = n"
| "toNumber E (Some (JStr s)) = coerceNumber E (JStr s)"
| "toNumber E (Some (JArr a)) = coerceNumber E (JArr a)"
| "toNumber E (Some (JObj ob)) = coerceNumber E (JObj ob)"

text \<open>Truthiness of a value, as \<^verbatim>\<open>!r.geojson\<close> tests it.\<close>

fun truthy :: "json option \<Rightarrow> bool" where
  "truthy None = False"
| "truthy (Some JNull) = False"
| "truthy (Some (JBool b)) = b"
| "truthy (Some (JNum n)) = (n \<noteq> NaN \<and> n \<noteq> Num 0)"
| "truthy (Some (JStr s)) = (s \<noteq> [])"
| "truthy (Some (JArr a)) = True"
| "truthy (Some (JObj ob)) = True"

text \<open>\<^verbatim>\<open>v == null\<close>: true of \<^verbatim>\<open>null\<close> and of \<^verbatim>\<open>undefined\<close>.\<close>

fun isNullish :: "json option \<Rightarrow> bool" where
  "isNullish None = True"
| "isNullish (Some JNull) = True"
| "isNullish (Some v) = False"

text \<open>\<^verbatim>\<open>data?.rows?.[0]\<close>, with a \<^verbatim>\<open>null\<close> first element read as absent.\<close>

fun firstRow :: "reply \<Rightarrow> row option" where
  "firstRow None = None"
| "firstRow (Some []) = None"
| "firstRow (Some (r # rs)) = r"

text \<open>\<^verbatim>\<open>data.rows || []\<close>.\<close>

fun rowsOf :: "reply \<Rightarrow> row option list" where
  "rowsOf None = []"
| "rowsOf (Some rs) = rs"

section \<open>Strings\<close>

definition nl :: string where
  "nl = [CHR 0x0A]"

definition dq :: string where
  "dq = [CHR 0x22]"

text \<open>The white space that \<^verbatim>\<open>trim()\<close> strips, as far as single bytes go.\<close>

definition isSpace :: "char \<Rightarrow> bool" where
  "isSpace c = (c = CHR '' '' \<or> c = CHR 0x0A \<or> c = CHR 0x09 \<or> c = CHR 0x0D
     \<or> c = CHR 0x0B \<or> c = CHR 0x0C)"

definition trim :: "string \<Rightarrow> string" where
  "trim s = rev (dropWhile isSpace (rev (dropWhile isSpace s)))"

text \<open>\<^verbatim>\<open>toLowerCase()\<close> on the ASCII letters.\<close>

definition lowerChar :: "char \<Rightarrow> char" where
  "lowerChar c =
     (if 65 \<le> (of_char c :: nat) \<and> (of_char c :: nat) \<le> 90
      then char_of ((of_char c :: nat) + 32) else c)"

definition toLowerCase :: "string \<Rightarrow> string" where
  "toLowerCase s = map lowerChar s"

fun startsWith :: "string \<Rightarrow> string \<Rightarrow> bool" where
  "startsWith s [] = True"
| "startsWith [] (p # ps) = False"
| "startsWith (c # cs) (p # ps) = (c = p \<and> startsWith cs ps)"

text \<open>\<^verbatim>\<open>s.includes(t)\<close>.\<close>

fun includesText :: "string \<Rightarrow> string \<Rightarrow> bool" where
  "includesText [] t = (t = [])"
| "includesText (c # cs) t = (startsWith (c # cs) t \<or> includesText cs t)"

text \<open>\<^verbatim>\<open>s.replaceAll('"', '""')\<close>.\<close>

definition doubleQuotes :: "string \<Rightarrow> string" where
  "doubleQuotes s = concat (map (\<lambda>c. if c = CHR 0x22 then [c, c] else [c]) s)"

text \<open>\<^verbatim>\<open>parts.join(sep)\<close>.\<close>

fun join :: "string \<Rightarrow> string list \<Rightarrow> string" where
  "join sep [] = []"
| "join sep [p] = p"
| "join sep (p # q # ps) = p @ sep @ join sep (q # ps)"

text \<open>
  How a template string prints the row limit, a non-negative whole number: its decimal
  digits.
\<close>

definition digit :: "nat \<Rightarrow> char" where
  "digit d = ''0123456789'' ! d"

fun natText :: "nat \<Rightarrow> string" where
  "natText n = (if n < 10 then [digit n] else natText (n div 10) @ [digit (n mod 10)])"

declare natText.simps [simp del]

section \<open>Query texts\<close>

text \<open>
  \<^verbatim>\<open>srid === 4326 ? g : `ST_Transform(${g}, 4326)`\<close>, shared by the viewport and the
  extent query.
\<close>

definition geomExpr :: "layer \<Rightarrow> jsnum \<Rightarrow> string" where
  "geomExpr l srid =
     (if srid = Num 4326 then geomCol l
      else ''ST_Transform('' @ geomCol l @ '', 4326)'')"

text \<open>\<^verbatim>\<open>buildViewportSQL(layer, bbox, srid, limit = 600)\<close>: the template, then \<^verbatim>\<open>trim()\<close>.\<close>

definition buildViewportSQL :: "env \<Rightarrow> layer \<Rightarrow> bbox \<Rightarrow> jsnum \<Rightarrow> nat \<Rightarrow> string" where
  "buildViewportSQL E l b srid limit =
     trim (nl @
       ''        SELECT'' @ nl @
       ''          *,'' @ nl @
       ''          ST_AsGeoJSON('' @ geomExpr l srid @ '') AS geojson'' @ nl @
       ''        FROM '' @ full l @ nl @
       ''        WHERE '' @ geomCol l @ '' IS NOT NULL'' @ nl @
       ''          AND ST_Intersects('' @ nl @
       ''            '' @ geomExpr l srid @ '','' @ nl @
       ''            ST_MakeEnvelope('' @ numberText E (west b) @ '', '' @ numberText E (south b)
          @ '', '' @ numberText E (east b) @ '', '' @ numberText E (north b) @ '', 4326)'' @ nl @
       ''          )'' @ nl @
       ''        LIMIT '' @ natText limit @ '';'' @ nl @
       ''      '')"

text \<open>The single-row query of \<^verbatim>\<open>getLayerSrid\<close>.\<close>

definition sridSQL :: "layer \<Rightarrow> string" where
  "sridSQL l =
     trim (nl @
       ''        SELECT ST_SRID('' @ geomCol l @ '') AS srid'' @ nl @
       ''        FROM '' @ full l @ nl @
       ''        WHERE '' @ geomCol l @ '' IS NOT NULL'' @ nl @
       ''        LIMIT 1;'' @ nl @
       ''      '')"

text \<open>The query of \<^verbatim>\<open>getLayerExtent4326\<close>.\<close>

definition extentSQL :: "layer \<Rightarrow> jsnum \<Rightarrow> string" where
  "extentSQL l srid =
     trim (nl @
       ''        SELECT'' @ nl @
       ''          ST_XMin(e) AS west,'' @ nl @
       ''          ST_YMin(e) AS south,'' @ nl @
       ''          ST_XMax(e) AS east,'' @ nl @
       ''          ST_YMax(e) AS north'' @ nl @
       ''        FROM ('' @ nl @
       ''          SELECT ST_Extent('' @ geomExpr l srid @ '')::box2d AS e'' @ nl @
       ''          FROM '' @ full l @ nl @
       ''          WHERE '' @ geomCol l @ '' IS NOT NULL'' @ nl @
       ''        ) q;'' @ nl @
       ''      '')"

text \<open>The combined count query of \<^verbatim>\<open>hydrateGeomCounts\<close>: one sub-select per layer.\<close>

definition countPart :: "layer \<Rightarrow> string" where
  "countPart l =
     ''(SELECT COUNT('' @ geomCol l @ '') FROM '' @ full l @ '' WHERE '' @ geomCol l
       @ '' IS NOT NULL) AS '' @ dq @ doubleQuotes (full l) @ dq"

definition countsSQL :: "layer list \<Rightarrow> string" where
  "countsSQL ls = ''SELECT '' @ join '', '' (map countPart ls) @ '';''"

section \<open>Stacking order\<close>

text \<open>\<^verbatim>\<open>order.indexOf(layerId)\<close>: the first position, or \<open>-1\<close>.\<close>

fun indexOf :: "string list \<Rightarrow> string \<Rightarrow> int" where
  "indexOf [] x = -1"
| "indexOf (y # ys) x =
     (if y = x then 0 else (let i = indexOf ys x in if i < 0 then -1 else i + 1))"

text \<open>
  The array part of \<^verbatim>\<open>moveLayer(layerId, dir)\<close>: \<open>None\<close> on either early return,
  otherwise the array after the two assignments.
\<close>

definition moveInOrder :: "string list \<Rightarrow> string \<Rightarrow> int \<Rightarrow> string list option" where
  "moveInOrder ord layerId dir =
     (let idx = indexOf ord layerId in
      if idx < 0 then None
      else let j = idx + dir in
        if j < 0 \<or> j \<ge> int (length ord) then None
        else let tmp = ord ! nat idx;
                 ord1 = ord[nat idx := ord ! nat j]
             in Some (ord1[nat j := tmp]))"

section \<open>Registry, page and rendering surface\<close>

text \<open>
  Everything the program does to the outside is recorded, in order: a request to the
  query service (tagged with the function that sent it), a call of the rendering
  surface, or a blocking notification to the user.
\<close>

datatype qkind = QCounts | QSrid | QExtent | QViewport | QAdhoc

datatype effect =
    Query qkind string
  | SetFeatures string "feature list"
  | SetLayerVisible string bool
  | ApplyOrder "string list"
  | FitBounds row
  | MapClear
  | Alert string

text \<open>
  A rendered row of the layer list with what its handlers close over (\<^verbatim>\<open>layer\<close>,
  \<^verbatim>\<open>isActive\<close>, \<^verbatim>\<open>emptyGeom\<close>) and the state of its check box.
\<close>

record lrow =
  r_layer :: layer
  r_isActive :: bool
  r_emptyGeom :: bool
  r_checked :: bool
  r_disabled :: bool

text \<open>
  The variables of \<^verbatim>\<open>GCPostgisApp\<close>, the page elements the program reads back, the
  viewport of the map, the number of requests sent so far and the record of effects. The
  label \<^verbatim>\<open>#featureCount\<close> only ever holds the decimal text of a feature count and is
  kept as that number. Layer objects are never changed after hydration, so holding
  copies of them (in \<open>active\<close> and in the rows) is the same as holding references.
\<close>

record state =
  layers :: "layer list"
  active :: "layer option"
  visible :: "string set"
  loaded :: "string set"
  order :: "string list"
  sridCache :: "string \<rightharpoonup> jsnum"
  rows :: "lrow list"
  layerSearch :: string
  sqlEditor :: string
  featureCount :: nat
  activeLayerLabel :: string
  srcBadge :: string
  bounds :: bbox
  sent :: nat
  trace :: "effect list"

definition emit :: "effect \<Rightarrow> state \<Rightarrow> state" where
  "emit e s = s\<lparr>trace := trace s @ [e]\<rparr>"

text \<open>\<^verbatim>\<open>alert(e.message || String(e))\<close>.\<close>

definition alert :: "string \<Rightarrow> state \<Rightarrow> state" where
  "alert msg s = emit (Alert msg) s"

text \<open>
  \<^verbatim>\<open>postJson("/api/v1/postgis/query", { sql })\<close>: the request is sent, and the reply
  is either a failure (thrown) or the data.
\<close>

definition postJson :: "env \<Rightarrow> qkind \<Rightarrow> string \<Rightarrow> state \<Rightarrow> (string + reply) \<times> state" where
  "postJson E k sql s =
     (remote E (sent s) sql, (emit (Query k sql) s)\<lparr>sent := Suc (sent s)\<rparr>)"

definition applyOrderToMap :: "state \<Rightarrow> state" where
  "applyOrderToMap s = emit (ApplyOrder (order s)) s"

definition ensureOrderInitialized :: "state \<Rightarrow> state" where
  "ensureOrderInitialized s =
     (if order s \<noteq> [] then s
      else applyOrderToMap (s\<lparr>order := map full (layers s)\<rparr>))"

text \<open>\<^verbatim>\<open>layer.geomCount != null && layer.geomCount <= 0\<close>.\<close>

definition emptyGeom :: "layer \<Rightarrow> bool" where
  "emptyGeom l = (case geomCount l of None \<Rightarrow> False | Some c \<Rightarrow> le0 c)"

text \<open>\<^verbatim>\<open>l.geomCount == null ? true : l.geomCount > 0\<close>.\<close>

definition hasData :: "layer \<Rightarrow> bool" where
  "hasData l = (case geomCount l of None \<Rightarrow> True | Some c \<Rightarrow> gt0 c)"

definition mkRow :: "state \<Rightarrow> layer \<Rightarrow> lrow" where
  "mkRow s l =
     (let isActive = (case active s of None \<Rightarrow> False | Some a \<Rightarrow> full a = full l);
          e = emptyGeom l
      in \<lparr>r_layer = l, r_isActive = isActive, r_emptyGeom = e,
          r_checked = (if e then False else full l \<in> visible s), r_disabled = e\<rparr>)"

text \<open>\<^verbatim>\<open>renderLayerList(filterText)\<close>: the rows are rebuilt from the registry.\<close>

definition renderLayerList :: "string \<Rightarrow> state \<Rightarrow> state" where
  "renderLayerList filterText s =
     (let ft = trim (toLowerCase filterText);
          shown = filter (\<lambda>l. ft = [] \<or> includesText (toLowerCase (full l)) ft) (layers s)
      in s\<lparr>rows := map (mkRow s) shown\<rparr>)"

definition moveLayer :: "string \<Rightarrow> int \<Rightarrow> state \<Rightarrow> state" where
  "moveLayer layerId dir s =
     (case moveInOrder (order s) layerId dir of
        None \<Rightarrow> s
      | Some ord \<Rightarrow> renderLayerList (layerSearch s) (applyOrderToMap (s\<lparr>order := ord\<rparr>)))"

section \<open>Viewport query engine\<close>

definition getLayerSrid :: "env \<Rightarrow> layer \<Rightarrow> state \<Rightarrow> (string + jsnum) \<times> state" where
  "getLayerSrid E l s =
     (case sridCache s (full l) of
        Some v \<Rightarrow> (Inr v, s)
      | None \<Rightarrow>
          (case postJson E QSrid (sridSQL l) s of
             (Inl err, s1) \<Rightarrow> (Inl err, s1)
           | (Inr data, s1) \<Rightarrow>
               (let srid = toNumber E (case firstRow data of None \<Rightarrow> None | Some r \<Rightarrow> r ''srid'');
                    safe = (if isFinite srid \<and> gt0 srid then srid else Num 4326)
                in (Inr safe, s1\<lparr>sridCache := (sridCache s1)(full l \<mapsto> safe)\<rparr>))))"

text \<open>\<^verbatim>\<open>getLayerExtent4326\<close>: \<^verbatim>\<open>data?.rows?.[0] || null\<close> is the result.\<close>

definition getLayerExtent4326 :: "env \<Rightarrow> layer \<Rightarrow> state \<Rightarrow> (string + row option) \<times> state" where
  "getLayerExtent4326 E l s =
     (case getLayerSrid E l s of
        (Inl err, s1) \<Rightarrow> (Inl err, s1)
      | (Inr srid, s1) \<Rightarrow>
          (case postJson E QExtent (extentSQL l srid) s1 of
             (Inl err, s2) \<Rightarrow> (Inl err, s2)
           | (Inr data, s2) \<Rightarrow> (Inr (firstRow data), s2)))"

text \<open>\<^verbatim>\<open>ext && ext.west != null\<close>, the test every caller makes on an extent.\<close>

definition extentUsable :: "row option \<Rightarrow> bool" where
  "extentUsable ext = (case ext of None \<Rightarrow> False | Some r \<Rightarrow> \<not> isNullish (r ''west''))"

text \<open>
  \<^verbatim>\<open>GCMap.fitBounds4326(bbox)\<close>: the call is recorded; the view moves unless one of
  the four numbers is \<^verbatim>\<open>NaN\<close>.
\<close>

definition fitBounds4326 :: "env \<Rightarrow> row \<Rightarrow> state \<Rightarrow> state" where
  "fitBounds4326 E ext s =
     (let w = toNumber E (ext ''west''); so = toNumber E (ext ''south'');
          e = toNumber E (ext ''east''); n = toNumber E (ext ''north'');
          s1 = emit (FitBounds ext) s
      in if w = NaN \<or> so = NaN \<or> e = NaN \<or> n = NaN then s1
         else s1\<lparr>bounds := fitView E \<lparr>west = w, south = so, east = e, north = n\<rparr>\<rparr>)"

text \<open>One row of \<^verbatim>\<open>rowsToFeatureCollection\<close>: \<open>None\<close> when the row is skipped.\<close>

definition toFeature :: "env \<Rightarrow> row option \<Rightarrow> feature option" where
  "toFeature E r =
     (case r of
        None \<Rightarrow> None
      | Some rw \<Rightarrow>
          if \<not> truthy (rw ''geojson'') then None
          else (case rw ''geojson'' of
                  None \<Rightarrow> None
                | Some (JStr txt) \<Rightarrow>
                    (case jsonParse E txt of
                       None \<Rightarrow> None
                     | Some g \<Rightarrow> Some \<lparr>geometry = g, properties = rw(''geojson'' := None)\<rparr>)
                | Some g \<Rightarrow> Some \<lparr>geometry = g, properties = rw(''geojson'' := None)\<rparr>))"

definition rowsToFeatureCollection :: "env \<Rightarrow> row option list \<Rightarrow> feature list" where
  "rowsToFeatureCollection E rs = List.map_filter (toFeature E) rs"

definition loadLayerInViewport ::
  "env \<Rightarrow> layer \<Rightarrow> bool \<Rightarrow> state \<Rightarrow> (string + feature list) \<times> state" where
  "loadLayerInViewport E l updateCounters s =
     (let bb = bounds s in
      case getLayerSrid E l s of
        (Inl err, s1) \<Rightarrow> (Inl err, s1)
      | (Inr srid, s1) \<Rightarrow>
          (let sql = buildViewportSQL E l bb srid 600;
               s2 = s1\<lparr>sqlEditor := sql\<rparr>
           in case postJson E QViewport sql s2 of
                (Inl err, s3) \<Rightarrow> (Inl err, s3)
              | (Inr data, s3) \<Rightarrow>
                  (let fc = rowsToFeatureCollection E (rowsOf data);
                       s4 = emit (SetFeatures (full l) fc) s3;
                       s5 = s4\<lparr>loaded := insert (full l) (loaded s4)\<rparr>;
                       s6 = emit (SetLayerVisible (full l) (full l \<in> visible s5)) s5;
                       s7 = applyOrderToMap s6;
                       s8 = (if updateCounters
                             then s7\<lparr>activeLayerLabel := full l, featureCount := length fc,
                                     srcBadge := ''viewport''\<rparr>
                             else s7)
                   in (Inr fc, s8))))"

text \<open>\<^verbatim>\<open>runActiveViewportLoad\<close>: \<open>None\<close> is the \<^verbatim>\<open>null\<close> of its two early returns.\<close>

definition runActiveViewportLoad :: "env \<Rightarrow> state \<Rightarrow> (string + feature list option) \<times> state" where
  "runActiveViewportLoad E s =
     (case active s of
        None \<Rightarrow> (Inr None, s)
      | Some a \<Rightarrow>
          if full a \<notin> visible s then (Inr None, s)
          else (case loadLayerInViewport E a True s of
                  (Inl err, s1) \<Rightarrow> (Inl err, s1)
                | (Inr fc, s1) \<Rightarrow> (Inr (Some fc), s1)))"

section \<open>Handlers of the layer list\<close>

definition setChecked :: "nat \<Rightarrow> bool \<Rightarrow> state \<Rightarrow> state" where
  "setChecked i b s = s\<lparr>rows := (rows s)[i := (rows s ! i)\<lparr>r_checked := b\<rparr>]\<rparr>"

text \<open>The \<^verbatim>\<open>change\<close> handler of the check box of row \<open>i\<close>.\<close>

definition cbChange :: "env \<Rightarrow> nat \<Rightarrow> state \<Rightarrow> state" where
  "cbChange E i s =
     (let r = rows s ! i; layerId = full (r_layer r) in
      if r_checked r then
        (let s1 = s\<lparr>visible := insert layerId (visible s)\<rparr> in
         if layerId \<notin> loaded s1 then
           (case loadLayerInViewport E (r_layer r) (r_isActive r) s1 of
              (Inl err, s2) \<Rightarrow>
                alert err (setChecked i False (s2\<lparr>visible := visible s2 - {layerId}\<rparr>))
            | (Inr fc, s2) \<Rightarrow> s2)
         else applyOrderToMap (emit (SetLayerVisible layerId True) s1))
      else emit (SetLayerVisible layerId False) (s\<lparr>visible := visible s - {layerId}\<rparr>))"

text \<open>
  The user clicks the check box of row \<open>i\<close>: nothing happens when there is no such row
  or the box is disabled; otherwise the box flips and its \<^verbatim>\<open>change\<close> handler runs.
\<close>

definition toggleCheckbox :: "env \<Rightarrow> nat \<Rightarrow> state \<Rightarrow> state" where
  "toggleCheckbox E i s =
     (if i \<ge> length (rows s) then s
      else if r_disabled (rows s ! i) then s
      else cbChange E i (setChecked i (\<not> r_checked (rows s ! i)) s))"

text \<open>The \<^verbatim>\<open>try\<close> block of the row's \<^verbatim>\<open>click\<close> handler.\<close>

definition rowClickTry :: "env \<Rightarrow> layer \<Rightarrow> state \<Rightarrow> (string + unit) \<times> state" where
  "rowClickTry E l s =
     (if full l \<notin> loaded s then
        (case loadLayerInViewport E l True s of
           (Inl err, s1) \<Rightarrow> (Inl err, s1)
         | (Inr fc, s1) \<Rightarrow>
             (let cnt = featureCount s1 in
              if cnt = 0 then
                (case getLayerExtent4326 E l s1 of
                   (Inl err, s2) \<Rightarrow> (Inl err, s2)
                 | (Inr ext, s2) \<Rightarrow>
                     if extentUsable ext then
                       (let s3 = fitBounds4326 E (the ext) s2 in
                        case loadLayerInViewport E l True s3 of
                          (Inl err, s4) \<Rightarrow> (Inl err, s4)
                        | (Inr fc2, s4) \<Rightarrow> (Inr (), s4))
                     else (Inr (), s2))
              else (Inr (), s1)))
      else
        (let s0 = emit (SetLayerVisible (full l) True) s in
         case runActiveViewportLoad E s0 of
           (Inl err, s1) \<Rightarrow> (Inl err, s1)
         | (Inr fc, s1) \<Rightarrow>
             if (case fc of None \<Rightarrow> True | Some fs \<Rightarrow> fs = []) then
               (case getLayerExtent4326 E l s1 of
                  (Inl err, s2) \<Rightarrow> (Inl err, s2)
                | (Inr ext, s2) \<Rightarrow>
                    if extentUsable ext then
                      (let s3 = fitBounds4326 E (the ext) s2 in
                       case runActiveViewportLoad E s3 of
                         (Inl err, s4) \<Rightarrow> (Inl err, s4)
                       | (Inr fc2, s4) \<Rightarrow> (Inr (), s4))
                    else (Inr (), s2))
             else (Inr (), s1)))"

text \<open>The \<^verbatim>\<open>click\<close> handler of row \<open>i\<close>; no such row, no click.\<close>

definition rowClick :: "env \<Rightarrow> nat \<Rightarrow> state \<Rightarrow> state" where
  "rowClick E i s =
     (if i \<ge> length (rows s) then s
      else
        (let r = rows s ! i; l = r_layer r;
             s1 = renderLayerList (layerSearch s) (s\<lparr>active := Some l\<rparr>)
         in if r_emptyGeom r then
              s1\<lparr>activeLayerLabel := full l, featureCount := 0, srcBadge := ''viewport''\<rparr>
            else
              (let s2 = s1\<lparr>visible := insert (full l) (visible s1)\<rparr> in
               case rowClickTry E l s2 of
                 (Inl err, s3) \<Rightarrow> alert err s3
               | (Inr u, s3) \<Rightarrow> s3)))"

text \<open>The Up and Down buttons of row \<open>i\<close>.\<close>

definition rowMove :: "nat \<Rightarrow> int \<Rightarrow> state \<Rightarrow> state" where
  "rowMove i dir s =
     (if i \<ge> length (rows s) then s
      else moveLayer (full (r_layer (rows s ! i))) dir s)"

section \<open>Handlers bound by \<^verbatim>\<open>bindUI\<close>\<close>

text \<open>\<^verbatim>\<open>#btnReload\<close> and \<^verbatim>\<open>#btnFillViewportSql\<close>.\<close>

definition btnReload :: "env \<Rightarrow> state \<Rightarrow> state" where
  "btnReload E s =
     (case runActiveViewportLoad E s of
        (Inl err, s1) \<Rightarrow> alert err s1
      | (Inr fc, s1) \<Rightarrow> s1)"

text \<open>\<^verbatim>\<open>#btnClear\<close>.\<close>

definition emDash :: string where
  "emDash = [CHR 0xE2, CHR 0x80, CHR 0x94]"

definition btnClear :: "state \<Rightarrow> state" where
  "btnClear s =
     (let s1 = emit MapClear s;
          s2 = s1\<lparr>loaded := {}\<rparr>;
          s3 = s2\<lparr>visible := {}\<rparr>;
          s4 = s3\<lparr>sridCache := Map.empty\<rparr>;
          s5 = s4\<lparr>featureCount := 0, activeLayerLabel := emDash, srcBadge := ''viewport''\<rparr>
      in renderLayerList (layerSearch s5) s5)"

definition advId :: string where
  "advId = ''advanced-sql''"

text \<open>\<^verbatim>\<open>#btnRunSql\<close>.\<close>

definition btnRunSql :: "env \<Rightarrow> state \<Rightarrow> state" where
  "btnRunSql E s =
     (let sql = trim (sqlEditor s) in
      if sql = [] then s
      else
        (case postJson E QAdhoc sql s of
           (Inl err, s1) \<Rightarrow> alert err s1
         | (Inr data, s1) \<Rightarrow>
             (let fc = rowsToFeatureCollection E (rowsOf data) in
              if fc = [] then
                alert ''SQL ran, but no geojson column was returned. This mode expects geojson to draw.'' s1
              else
                (let s2 = s1\<lparr>visible := insert advId (visible s1)\<rparr>;
                     s3 = s2\<lparr>loaded := insert advId (loaded s2)\<rparr>;
                     s4 = (if advId \<notin> set (order s3) then s3\<lparr>order := order s3 @ [advId]\<rparr> else s3);
                     s5 = emit (SetFeatures advId fc) s4;
                     s6 = emit (SetLayerVisible advId True) s5;
                     s7 = applyOrderToMap s6
                 in s7\<lparr>srcBadge := ''advanced'', featureCount := length fc,
                       activeLayerLabel := advId\<rparr>))))"

text \<open>The debounced \<^verbatim>\<open>moveend\<close> callback, when its timer fires: failures are dropped.\<close>

definition moveEndFired :: "env \<Rightarrow> state \<Rightarrow> state" where
  "moveEndFired E s = snd (runActiveViewportLoad E s)"

section \<open>Catalog loader\<close>

record table =
  t_schema :: "string option"
  t_name :: string
  has_geom :: bool
  geom_cols :: "string list option"
  geom_col :: "string option"

record catalog =
  schemas :: "string list option"
  tables_by_schema :: "(string \<times> table list) list option"

text \<open>\<^verbatim>\<open>a || b\<close> on an optional string: absent and empty are both falsy.\<close>

definition orElse :: "string option \<Rightarrow> string \<Rightarrow> string" where
  "orElse a b = (case a of None \<Rightarrow> b | Some x \<Rightarrow> if x = [] then b else x)"

definition layerOf :: "string \<Rightarrow> table \<Rightarrow> layer" where
  "layerOf sch t =
     (let gc = orElse (case geom_cols t of None \<Rightarrow> None | Some [] \<Rightarrow> None | Some (c # cs) \<Rightarrow> Some c)
                 (orElse (geom_col t) ''geom'')
      in \<lparr>schema = orElse (t_schema t) sch, name = t_name t,
          full = orElse (t_schema t) sch @ ''.'' @ t_name t,
          geomCol = gc, geomCount = None\<rparr>)"

definition tablesOf :: "catalog \<Rightarrow> string \<Rightarrow> table list" where
  "tablesOf c sch =
     (case tables_by_schema c of
        None \<Rightarrow> []
      | Some kv \<Rightarrow> (case map_of kv sch of None \<Rightarrow> [] | Some ts \<Rightarrow> ts))"

text \<open>\<^verbatim>\<open>loadLayerCatalog\<close>, given the reply of the catalog service.\<close>

definition loadLayerCatalog :: "string + catalog \<Rightarrow> string + layer list" where
  "loadLayerCatalog rep =
     (case rep of
        Inl err \<Rightarrow> Inl err
      | Inr c \<Rightarrow>
          (let schs = (case schemas c of
                         Some ss \<Rightarrow> ss
                       | None \<Rightarrow> (case tables_by_schema c of None \<Rightarrow> [] | Some kv \<Rightarrow> map fst kv))
           in Inr (concat (map (\<lambda>sch. map (layerOf sch) (filter has_geom (tablesOf c sch))) schs))))"

text \<open>The count stored for a layer from the value found under its name in the row.\<close>

definition countOf :: "env \<Rightarrow> json option \<Rightarrow> jsnum" where
  "countOf E v =
     (let c = (if isNullish v then Num 0 else toNumber E v)
      in if \<not> isFinite c then Num 0 else c)"

text \<open>
  \<^verbatim>\<open>hydrateGeomCounts(layers)\<close>. The source writes the counts into the layer objects;
  here the layers come back updated. On a failure nothing has been written.
\<close>

definition hydrateGeomCounts :: "env \<Rightarrow> layer list \<Rightarrow> state \<Rightarrow> (string + layer list) \<times> state" where
  "hydrateGeomCounts E ls s =
     (if ls = [] then (Inr ls, s)
      else
        (case postJson E QCounts (countsSQL ls) s of
           (Inl err, s1) \<Rightarrow> (Inl err, s1)
         | (Inr data, s1) \<Rightarrow>
             (let rw = (case firstRow data of None \<Rightarrow> Map.empty | Some r \<Rightarrow> r)
              in (Inr (map (\<lambda>l. l\<lparr>geomCount := Some (countOf E (rw (full l)))\<rparr>) ls), s1))))"

section \<open>Start-up\<close>

text \<open>The page before \<^verbatim>\<open>init\<close>: an empty registry, the map at its opening view.\<close>

definition initial :: "bbox \<Rightarrow> state" where
  "initial view =
     \<lparr>layers = [], active = None, visible = {}, loaded = {}, order = [],
      sridCache = Map.empty, rows = [], layerSearch = [], sqlEditor = [],
      featureCount = 0, activeLayerLabel = [], srcBadge = [], bounds = view,
      sent = 0, trace = []\<rparr>"

text \<open>\<^verbatim>\<open>layers.find(pred) || layers[0]\<close> on a list that is not empty.\<close>

definition pickActive :: "layer list \<Rightarrow> layer option" where
  "pickActive ls =
     (case List.find hasData ls of
        Some l \<Rightarrow> Some l
      | None \<Rightarrow> (case ls of [] \<Rightarrow> None | l # rest \<Rightarrow> Some l))"

text \<open>\<^verbatim>\<open>active && (active.geomCount == null || active.geomCount > 0)\<close>.\<close>

definition activeHasData :: "state \<Rightarrow> bool" where
  "activeHasData s =
     (case active s of
        None \<Rightarrow> False
      | Some a \<Rightarrow> (case geomCount a of None \<Rightarrow> True | Some c \<Rightarrow> gt0 c))"

text \<open>
  The part of \<^verbatim>\<open>init()\<close> between the catalog and \<^verbatim>\<open>bindUI\<close>: hydration (a failure
  is dropped), the stacking order, the choice of the active layer, its default
  visibility, the first rendering of the list.
\<close>

definition initSelect :: "env \<Rightarrow> state \<Rightarrow> state" where
  "initSelect E s1 =
     (let s2 = (case hydrateGeomCounts E (layers s1) s1 of
                  (Inl err, t) \<Rightarrow> t
                | (Inr ls', t) \<Rightarrow> t\<lparr>layers := ls'\<rparr>);
          s3 = ensureOrderInitialized s2;
          s4 = s3\<lparr>active := pickActive (layers s3)\<rparr>;
          s5 = (if activeHasData s4
                then s4\<lparr>visible := insert (full (the (active s4))) (visible s4)\<rparr>
                else s4)
      in renderLayerList [] s5)"

text \<open>
  The last block of \<^verbatim>\<open>init()\<close>: the initial load when the active layer has data,
  with its one fallback, whose failures are dropped; the labels otherwise. The first
  component is the failure \<^verbatim>\<open>init\<close> ends with, if any.
\<close>

definition initLoad :: "env \<Rightarrow> state \<Rightarrow> string option \<times> state" where
  "initLoad E s6 =
     (if activeHasData s6 then
        (case loadLayerInViewport E (the (active s6)) True s6 of
           (Inl err, s7) \<Rightarrow> (Some err, s7)
         | (Inr fc, s7) \<Rightarrow>
             if fc = [] then
               (case getLayerExtent4326 E (the (active s7)) s7 of
                  (Inl err, s8) \<Rightarrow> (None, s8)
                | (Inr ext, s8) \<Rightarrow>
                    if extentUsable ext then
                      (let s9 = fitBounds4326 E (the ext) s8 in
                       case loadLayerInViewport E (the (active s9)) True s9 of
                         (Inl err, s10) \<Rightarrow> (None, s10)
                       | (Inr fc2, s10) \<Rightarrow> (None, s10))
                    else (None, s8))
             else (None, s7))
      else
        (case active s6 of
           None \<Rightarrow> (None, s6)
         | Some a \<Rightarrow>
             (None, s6\<lparr>activeLayerLabel := full a, featureCount := 0,
                       srcBadge := ''viewport''\<rparr>)))"

text \<open>\<^verbatim>\<open>init()\<close>, given the reply of the catalog service.\<close>

definition init :: "env \<Rightarrow> string + catalog \<Rightarrow> state \<Rightarrow> string option \<times> state" where
  "init E rep s =
     (case loadLayerCatalog rep of
        Inl err \<Rightarrow> (Some err, s)
      | Inr ls \<Rightarrow>
          (let s1 = s\<lparr>layers := ls\<rparr> in
           if layers s1 = [] then (None, s1)
           else initLoad E (initSelect E s1)))"

section \<open>The page as a machine\<close>

text \<open>
  What can happen after \<^verbatim>\<open>init\<close>: the handlers bound to the page, the user typing in
  the search box or the SQL editor, the user moving the map, and the debounced reload
  firing. Each handler is taken to run to its end before the next event is handled.
\<close>

datatype event =
    Search string
  | Reload
  | Clear
  | EditSql string
  | RunSql
  | FillViewportSql
  | Pan bbox
  | MoveEndFired
  | CheckboxToggle nat
  | RowClick nat
  | Up nat
  | Down nat

fun step :: "env \<Rightarrow> state \<Rightarrow> event \<Rightarrow> state" where
  "step E s (Search txt) = renderLayerList txt (s\<lparr>layerSearch := txt\<rparr>)"
| "step E s Reload = btnReload E s"
| "step E s Clear = btnClear s"
| "step E s (EditSql txt) = s\<lparr>sqlEditor := txt\<rparr>"
| "step E s RunSql = btnRunSql E s"
| "step E s FillViewportSql = btnReload E s"
| "step E s (Pan view) = s\<lparr>bounds := view\<rparr>"
| "step E s MoveEndFired = moveEndFired E s"
| "step E s (CheckboxToggle i) = toggleCheckbox E i s"
| "step E s (RowClick i) = rowClick E i s"
| "step E s (Up i) = rowMove i (-1) s"
| "step E s (Down i) = rowMove i 1 s"

definition run :: "env \<Rightarrow> state \<Rightarrow> event list \<Rightarrow> state" where
  "run E s es = foldl (step E) s es"

section \<open>Relations and invariants used in the proofs\<close>

text \<open>
  What every function of the query engine leaves alone: the catalog, the active layer,
  the visible set, the order, the rendered rows and the search text; it only adds to
  \<open>loaded\<close>, and it never changes an entry of the SRID cache that is already there.
\<close>

definition engineStep :: "state \<Rightarrow> state \<Rightarrow> bool" where
  "engineStep s s' =
     (layers s' = layers s \<and> active s' = active s \<and> visible s' = visible s
      \<and> order s' = order s \<and> rows s' = rows s \<and> layerSearch s' = layerSearch s
      \<and> loaded s \<subseteq> loaded s'
      \<and> (\<forall>k v. sridCache s k = Some v \<longrightarrow> sridCache s' k = Some v))"

text \<open>Layers as \<^verbatim>\<open>loadLayerCatalog\<close> builds them: no count yet, and a dot in the name.\<close>

definition fromCatalog :: "layer list \<Rightarrow> bool" where
  "fromCatalog ls = (\<forall>l\<in>set ls. geomCount l = None \<and> CHR ''.'' \<in> set (full l))"

text \<open>
  After hydration every count is absent or finite, layers with the same name carry the
  same count, and no cataloged layer has the name of the synthetic layer.
\<close>

definition wfLayers :: "layer list \<Rightarrow> bool" where
  "wfLayers ls =
     ((\<forall>l\<in>set ls. (case geomCount l of None \<Rightarrow> True | Some c \<Rightarrow> isFinite c) \<and> full l \<noteq> advId)
      \<and> (\<forall>l\<in>set ls. \<forall>l'\<in>set ls. full l = full l' \<longrightarrow> geomCount l = geomCount l'))"

text \<open>Every rendered row shows a cataloged layer, and is disabled exactly when that layer is known to be empty.\<close>

definition rowsOk :: "state \<Rightarrow> bool" where
  "rowsOk s =
     (\<forall>r\<in>set (rows s). r_layer r \<in> set (layers s) \<and> r_emptyGeom r = emptyGeom (r_layer r)
        \<and> r_disabled r = emptyGeom (r_layer r))"

text \<open>No cataloged layer that is visible has a count known to be zero or less.\<close>

definition visOk :: "state \<Rightarrow> bool" where
  "visOk s = (\<forall>l\<in>set (layers s). full l \<in> visible s \<longrightarrow> hasData l)"

definition registryOk :: "state \<Rightarrow> bool" where
  "registryOk s = (wfLayers (layers s) \<and> rowsOk s \<and> visOk s)"

text \<open>Counters over the record of effects.\<close>

fun isViewportQuery :: "effect \<Rightarrow> bool" where
  "isViewportQuery (Query k q) = (k = QViewport)"
| "isViewportQuery e = False"

fun isExtentQuery :: "effect \<Rightarrow> bool" where
  "isExtentQuery (Query k q) = (k = QExtent)"
| "isExtentQuery e = False"

fun isSridQuery :: "effect \<Rightarrow> bool" where
  "isSridQuery (Query k q) = (k = QSrid)"
| "isSridQuery e = False"

fun isFit :: "effect \<Rightarrow> bool" where
  "isFit (FitBounds ext) = True"
| "isFit e = False"

fun isLoadEffect :: "effect \<Rightarrow> bool" where
  "isLoadEffect (Query k q) = (k \<noteq> QCounts)"
| "isLoadEffect (SetFeatures i fc) = True"
| "isLoadEffect (FitBounds ext) = True"
| "isLoadEffect e = False"

definition viewportQueries :: "state \<Rightarrow> nat" where
  "viewportQueries s = length (filter isViewportQuery (trace s))"

definition extentQueries :: "state \<Rightarrow> nat" where
  "extentQueries s = length (filter isExtentQuery (trace s))"

definition sridQueries :: "state \<Rightarrow> nat" where
  "sridQueries s = length (filter isSridQuery (trace s))"

definition fitCalls :: "state \<Rightarrow> nat" where
  "fitCalls s = length (filter isFit (trace s))"

text \<open>
  The bound on one run of the extent fallback, between the state before and the state
  after: at most two viewport requests, one extent request and one fit; a fit only after
  an extent request and always followed by the second viewport request; no second
  viewport request without a fit; an extent request only after a viewport request.
\<close>

definition fallbackBound :: "state \<Rightarrow> state \<Rightarrow> bool" where
  "fallbackBound s s' =
     (viewportQueries s' \<le> viewportQueries s + 2 \<and> extentQueries s' \<le> extentQueries s + 1
      \<and> fitCalls s' \<le> fitCalls s + 1
      \<and> (fitCalls s' = fitCalls s + 1 \<longrightarrow>
            extentQueries s' = extentQueries s + 1 \<and> viewportQueries s' = viewportQueries s + 2)
      \<and> (viewportQueries s' = viewportQueries s + 2 \<longrightarrow> fitCalls s' = fitCalls s + 1)
      \<and> (extentQueries s' = extentQueries s + 1 \<longrightarrow> viewportQueries s' = viewportQueries s + 1
            \<or> viewportQueries s' = viewportQueries s + 2))"

text \<open>
  The requests among the effects, and the first request of a kind in a list of effects,
  with its number among all requests sent (the first effect of the list being sent when
  \<open>n\<close> requests have gone before) and its text.
\<close>

fun isQuery :: "effect \<Rightarrow> bool" where
  "isQuery (Query k q) = True"
| "isQuery e = False"

fun firstRequest :: "qkind \<Rightarrow> nat \<Rightarrow> effect list \<Rightarrow> (nat \<times> string) option" where
  "firstRequest k n [] = None"
| "firstRequest k n (Query k' q # es) =
     (if k' = k then Some (n, q) else firstRequest k (Suc n) es)"
| "firstRequest k n (e # es) = firstRequest k n es"

text \<open>The effects recorded between an earlier and a later state.\<close>

definition since :: "state \<Rightarrow> state \<Rightarrow> effect list" where
  "since s s' = drop (length (trace s)) (trace s')"

text \<open>
  The shape that the three copies of the fallback share (the row click on a layer not yet
  loaded, the row click on a loaded layer, the initial load): load, and when nothing
  came back fetch the extent, and when the callers' test accepts it fit and load once
  more.
\<close>

definition fallbackOf :: "env \<Rightarrow> layer \<Rightarrow> state \<Rightarrow> state" where
  "fallbackOf E l s =
     (case loadLayerInViewport E l True s of
        (Inl err, s1) \<Rightarrow> s1
      | (Inr fc, s1) \<Rightarrow>
          if fc = [] then
            (case getLayerExtent4326 E l s1 of
               (Inl err, s2) \<Rightarrow> s2
             | (Inr ext, s2) \<Rightarrow>
                 if extentUsable ext
                 then snd (loadLayerInViewport E l True (fitBounds4326 E (the ext) s2))
                 else s2)
          else s1)"

text \<open>
  What the replies of the query service decide about a list of effects: the surface is
  asked to fit exactly the first row of the reply to the extent request, and only when
  that request was sent and answered with a first row whose \<^verbatim>\<open>west\<close> is neither
  missing nor \<^verbatim>\<open>null\<close>; and the extent request is sent exactly when the first
  viewport request was answered without any feature.
\<close>

definition fallbackSpec :: "env \<Rightarrow> nat \<Rightarrow> effect list \<Rightarrow> bool" where
  "fallbackSpec E n d =
     (filter isFit d =
        (case firstRequest QExtent n d of
           None \<Rightarrow> []
         | Some (m, q) \<Rightarrow>
             (case remote E m q of
                Inl err \<Rightarrow> []
              | Inr data \<Rightarrow>
                  (case firstRow data of
                     None \<Rightarrow> []
                   | Some r \<Rightarrow>
                       if r ''west'' = None \<or> r ''west'' = Some JNull then []
                       else [FitBounds r])))
      \<and> (firstRequest QExtent n d \<noteq> None) =
          (\<exists>m q data. firstRequest QViewport n d = Some (m, q) \<and> remote E m q = Inr data
             \<and> rowsToFeatureCollection E (rowsOf data) = []))"

text \<open>Effects that are no fit, no extent request and no viewport request.\<close>

definition quiet :: "effect \<Rightarrow> bool" where
  "quiet e = (\<not> isFit e \<and> \<not> isExtentQuery e \<and> \<not> isViewportQuery e)"

text \<open>The later state has recorded exactly these effects more, and counted their requests.\<close>

definition delta :: "state \<Rightarrow> effect list \<Rightarrow> state \<Rightarrow> bool" where
  "delta s d s' = (trace s' = trace s @ d \<and> sent s' = sent s + length (filter isQuery d))"

section \<open>Concrete catalogs, replies and pages\<close>

definition exTable :: "string \<Rightarrow> table" where
  "exTable n = \<lparr>t_schema = None, t_name = n, has_geom = True, geom_cols = None, geom_col = None\<rparr>"

text \<open>A catalog of two tables, \<^verbatim>\<open>public.a\<close> and \<^verbatim>\<open>public.b\<close>.\<close>

definition exCatalog :: catalog where
  "exCatalog = \<lparr>schemas = Some [''public''],
      tables_by_schema = Some [(''public'', [exTable ''a'', exTable ''b''])]\<rparr>"

definition exLayer :: "string \<Rightarrow> jsnum option \<Rightarrow> layer" where
  "exLayer n c = \<lparr>schema = ''public'', name = n, full = ''public.'' @ n, geomCol = ''geom'',
      geomCount = c\<rparr>"

definition exView :: bbox where
  "exView = \<lparr>west = Num 0, south = Num 0, east = Num 1, north = Num 1\<rparr>"

text \<open>The count row of the scenario of the specification: \<^verbatim>\<open>a\<close> has 0, \<^verbatim>\<open>b\<close> has 5.\<close>

definition exCounts :: row where
  "exCounts = [''public.a'' \<mapsto> JNum (Num 0), ''public.b'' \<mapsto> JNum (Num 5)]"

definition exShape :: row where
  "exShape = [''geojson'' \<mapsto> JObj []]"

definition exExtent :: row where
  "exExtent = [''west'' \<mapsto> JNum (Num 2), ''south'' \<mapsto> JNum (Num 2),
               ''east'' \<mapsto> JNum (Num 3), ''north'' \<mapsto> JNum (Num 3)]"

text \<open>
  The row an aggregate over no rows gives: \<^verbatim>\<open>ST_Extent\<close> of nothing is \<^verbatim>\<open>NULL\<close>, and
  so are the four numbers read from it.
\<close>

definition exNullExtent :: row where
  "exNullExtent = [''west'' \<mapsto> JNull, ''south'' \<mapsto> JNull, ''east'' \<mapsto> JNull,
                   ''north'' \<mapsto> JNull]"

definition exEnv :: "(nat \<Rightarrow> string \<Rightarrow> string + reply) \<Rightarrow> env" where
  "exEnv r = \<lparr>remote = r, coerceNumber = (\<lambda>v. NaN), numberText = (\<lambda>n. ''0''),
      jsonParse = (\<lambda>t. None), fitView = (\<lambda>b. b)\<rparr>"

text \<open>
  A service that answers the counts, then the SRID, then an empty viewport, then an
  extent, then one feature from then on.
\<close>

definition exRemote :: "nat \<Rightarrow> string \<Rightarrow> string + reply" where
  "exRemote n q =
     (if n = 0 then Inr (Some [Some exCounts])
      else if n = 1 then Inr (Some [Some [''srid'' \<mapsto> JNum (Num 4326)]])
      else if n = 2 then Inr (Some [])
      else if n = 3 then Inr (Some [Some exExtent])
      else Inr (Some [Some exShape]))"

text \<open>A service that is down.\<close>

definition exDown :: "nat \<Rightarrow> string \<Rightarrow> string + reply" where
  "exDown n q = Inl ''down''"

text \<open>A service that answers every request with one row of four nulls.\<close>

definition exNulls :: "nat \<Rightarrow> string \<Rightarrow> string + reply" where
  "exNulls n q = Inr (Some [Some exNullExtent])"

text \<open>
  A service that answers every request with one extent row: no SRID in it, no shape in
  it, and a usable extent.
\<close>

definition exExtents :: "nat \<Rightarrow> string \<Rightarrow> string + reply" where
  "exExtents n q = Inr (Some [Some exExtent])"

text \<open>The page after \<^verbatim>\<open>init\<close> against the first service, and against the one that is down.\<close>

definition exStarted :: state where
  "exStarted = snd (init (exEnv exRemote) (Inr exCatalog) (initial exView))"

definition exStartedDown :: state where
  "exStartedDown = snd (init (exEnv exDown) (Inr exCatalog) (initial exView))"

section \<open>Strings and query texts\<close>

lemma trim_pad:
  assumes a: "\<And>c. c \<in> set a \<Longrightarrow> isSpace c" and z: "\<And>c. c \<in> set z \<Longrightarrow> isSpace c"
    and b: "b \<noteq> []" and h: "\<not> isSpace (hd b)" and l: "\<not> isSpace (last b)"
  shows "trim (a @ b @ z) = b"
proof -
  have 1: "dropWhile isSpace (a @ b @ z) = b @ z"
    using a b h by (cases b) simp_all
  have 2: "dropWhile isSpace (rev z @ rev b) = rev b"
  proof -
    have "dropWhile isSpace (rev z @ rev b) = dropWhile isSpace (rev b)"
      by (rule dropWhile_append2) (simp add: z)
    also have "\<dots> = rev b"
      using b l by (cases "rev b") (auto simp: last_rev hd_rev)
    finally show ?thesis .
  qed
  show ?thesis by (simp add: trim_def 1 2)
qed

lemma natText_600: "natText 600 = ''600''"
  by (simp add: natText.simps digit_def)

section \<open>Frames of the query engine\<close>

lemma engineStep_refl: "engineStep s s"
  by (simp add: engineStep_def)

lemma engineStep_trans: "engineStep s t \<Longrightarrow> engineStep t u \<Longrightarrow> engineStep s u"
  by (auto simp: engineStep_def)

lemma engineStep_emit: "engineStep s (emit e s)"
  by (simp add: engineStep_def emit_def)

lemma postJson_eq:
  "postJson E k q s = (r, s') \<Longrightarrow>
     r = remote E (sent s) q \<and> s' = s\<lparr>sent := Suc (sent s), trace := trace s @ [Query k q]\<rparr>"
  by (auto simp: postJson_def emit_def)

lemma engineStep_postJson: "postJson E k q s = (r, s') \<Longrightarrow> engineStep s s'"
  by (auto simp: postJson_def emit_def engineStep_def)

lemma engineStep_getLayerSrid: "getLayerSrid E l s = (r, s') \<Longrightarrow> engineStep s s'"
  by (auto simp: getLayerSrid_def postJson_def emit_def engineStep_def Let_def
      split: option.splits sum.splits)

lemma engineStep_getLayerExtent4326: "getLayerExtent4326 E l s = (r, s') \<Longrightarrow> engineStep s s'"
  by (auto simp: getLayerExtent4326_def split: prod.splits sum.splits
      dest!: engineStep_getLayerSrid engineStep_postJson intro: engineStep_trans)

lemma engineStep_fitBounds4326: "engineStep s (fitBounds4326 E ext s)"
  by (simp add: fitBounds4326_def Let_def emit_def engineStep_def)

lemma engineStep_loadLayerInViewport:
  "loadLayerInViewport E l u s = (r, s') \<Longrightarrow> engineStep s s'"
  by (auto simp: loadLayerInViewport_def Let_def applyOrderToMap_def emit_def postJson_def
      split: prod.splits sum.splits dest!: engineStep_getLayerSrid)
     (auto simp: engineStep_def)

lemma engineStep_runActiveViewportLoad:
  "runActiveViewportLoad E s = (r, s') \<Longrightarrow> engineStep s s'"
  by (auto simp: runActiveViewportLoad_def engineStep_refl
      split: option.splits if_splits prod.splits sum.splits dest: engineStep_loadLayerInViewport)

lemma registryOk_engineStep: "engineStep s s' \<Longrightarrow> registryOk s \<Longrightarrow> registryOk s'"
  by (simp add: engineStep_def registryOk_def rowsOk_def visOk_def)

lemma hasData_iff: "(case geomCount l of None \<Rightarrow> True | Some c \<Rightarrow> isFinite c) \<Longrightarrow> hasData l = (\<not> emptyGeom l)"
  by (cases "geomCount l"; simp add: hasData_def emptyGeom_def; cases "the (geomCount l)"; auto)

lemma rowsOk_render: "rowsOk (renderLayerList ft s)"
  by (auto simp: rowsOk_def renderLayerList_def Let_def mkRow_def)

lemma render_fields:
  "layers (renderLayerList ft s) = layers s" "visible (renderLayerList ft s) = visible s"
  "order (renderLayerList ft s) = order s" "sridCache (renderLayerList ft s) = sridCache s"
  "active (renderLayerList ft s) = active s" "loaded (renderLayerList ft s) = loaded s"
  "trace (renderLayerList ft s) = trace s" "layerSearch (renderLayerList ft s) = layerSearch s"
  "sent (renderLayerList ft s) = sent s" "featureCount (renderLayerList ft s) = featureCount s"
  by (simp_all add: renderLayerList_def Let_def)

lemma registryOk_render: "registryOk s \<Longrightarrow> registryOk (renderLayerList ft s)"
  by (simp add: registryOk_def rowsOk_render render_fields visOk_def)

section \<open>The visibility invariant\<close>

lemma wfLayers_same:
  "wfLayers ls \<Longrightarrow> l \<in> set ls \<Longrightarrow> l' \<in> set ls \<Longrightarrow> full l = full l' \<Longrightarrow>
     geomCount l = geomCount l'"
  unfolding wfLayers_def by blast

lemma wfLayers_finite:
  "wfLayers ls \<Longrightarrow> l \<in> set ls \<Longrightarrow> (case geomCount l of None \<Rightarrow> True | Some c \<Rightarrow> isFinite c)"
  unfolding wfLayers_def by blast

lemma wfLayers_advId: "wfLayers ls \<Longrightarrow> l \<in> set ls \<Longrightarrow> full l \<noteq> advId"
  unfolding wfLayers_def by blast

lemma visOk_insert:
  assumes "registryOk s" "l \<in> set (layers s)" "\<not> emptyGeom l"
  shows "visOk (s\<lparr>visible := insert (full l) (visible s)\<rparr>)"
  unfolding visOk_def
proof (intro ballI impI)
  fix l' assume "l' \<in> set (layers (s\<lparr>visible := insert (full l) (visible s)\<rparr>))"
    and "full l' \<in> visible (s\<lparr>visible := insert (full l) (visible s)\<rparr>)"
  then have l': "l' \<in> set (layers s)" and v: "full l' = full l \<or> full l' \<in> visible s"
    by simp_all
  from assms(1) have wf: "wfLayers (layers s)" and vo: "visOk s" by (simp_all add: registryOk_def)
  have hl: "hasData l"
    using wfLayers_finite[OF wf assms(2)] assms(3) by (simp add: hasData_iff)
  show "hasData l'"
  proof (cases "full l' = full l")
    case True
    have "geomCount l' = geomCount l" by (rule wfLayers_same[OF wf l' assms(2) True])
    with hl show ?thesis by (simp add: hasData_def)
  next
    case False
    with v have "full l' \<in> visible s" by simp
    with l' vo show ?thesis unfolding visOk_def by blast
  qed
qed

lemma registryOk_insert:
  "registryOk s \<Longrightarrow> l \<in> set (layers s) \<Longrightarrow> \<not> emptyGeom l \<Longrightarrow> registryOk (s\<lparr>visible := insert (full l) (visible s)\<rparr>)"
  using visOk_insert[of s l] by (simp add: registryOk_def rowsOk_def)

lemma registryOk_delete: "registryOk s \<Longrightarrow> registryOk (s\<lparr>visible := visible s - X\<rparr>)"
  by (auto simp: registryOk_def rowsOk_def visOk_def)

lemma registryOk_setChecked:
  assumes "registryOk s" "i < length (rows s)"
  shows "registryOk (setChecked i b s)"
proof -
  from assms(1) have ro: "rowsOk s" by (simp add: registryOk_def)
  have ri: "rows s ! i \<in> set (rows s)" using assms(2) by simp
  have "rowsOk (setChecked i b s)"
    unfolding rowsOk_def
  proof
    fix r assume "r \<in> set (rows (setChecked i b s))"
    then have "r \<in> set ((rows s)[i := (rows s ! i)\<lparr>r_checked := b\<rparr>])"
      by (simp add: setChecked_def)
    then have "r \<in> insert ((rows s ! i)\<lparr>r_checked := b\<rparr>) (set (rows s))"
      using set_update_subset_insert[of "rows s" i] by blast
    then consider "r = (rows s ! i)\<lparr>r_checked := b\<rparr>" | "r \<in> set (rows s)" by blast
    then have "r_layer r \<in> set (layers s)
        \<and> r_emptyGeom r = emptyGeom (r_layer r) \<and> r_disabled r = emptyGeom (r_layer r)"
    proof cases
      case 1
      from ro ri have "r_layer (rows s ! i) \<in> set (layers s)
        \<and> r_emptyGeom (rows s ! i) = emptyGeom (r_layer (rows s ! i))
        \<and> r_disabled (rows s ! i) = emptyGeom (r_layer (rows s ! i))"
        unfolding rowsOk_def by blast
      with 1 show ?thesis by simp
    next
      case 2
      with ro show ?thesis unfolding rowsOk_def by blast
    qed
    then show "r_layer r \<in> set (layers (setChecked i b s))
        \<and> r_emptyGeom r = emptyGeom (r_layer r) \<and> r_disabled r = emptyGeom (r_layer r)"
      by (simp add: setChecked_def)
  qed
  with assms(1) show ?thesis
    by (simp add: registryOk_def visOk_def setChecked_def)
qed

lemma registryOk_emit: "registryOk s \<Longrightarrow> registryOk (emit e s)"
  by (simp add: registryOk_def rowsOk_def visOk_def emit_def)

lemma registryOk_alert: "registryOk s \<Longrightarrow> registryOk (alert m s)"
  by (simp add: alert_def registryOk_emit)

lemma registryOk_applyOrderToMap: "registryOk s \<Longrightarrow> registryOk (applyOrderToMap s)"
  by (simp add: applyOrderToMap_def registryOk_emit)

lemma registryOk_row: "registryOk s \<Longrightarrow> i < length (rows s) \<Longrightarrow>
   r_layer (rows s ! i) \<in> set (layers s) \<and> r_emptyGeom (rows s ! i) = emptyGeom (r_layer (rows s ! i))
   \<and> r_disabled (rows s ! i) = emptyGeom (r_layer (rows s ! i))"
  by (simp add: registryOk_def rowsOk_def)

lemma setChecked_fields:
  "layers (setChecked i b s) = layers s" "visible (setChecked i b s) = visible s"
  "loaded (setChecked i b s) = loaded s" "length (rows (setChecked i b s)) = length (rows s)"
  "i < length (rows s) \<Longrightarrow> r_layer (rows (setChecked i b s) ! i) = r_layer (rows s ! i)"
  "i < length (rows s) \<Longrightarrow> r_checked (rows (setChecked i b s) ! i) = b"
  "i < length (rows s) \<Longrightarrow> r_isActive (rows (setChecked i b s) ! i) = r_isActive (rows s ! i)"
  "i < length (rows s) \<Longrightarrow> r_disabled (rows (setChecked i b s) ! i) = r_disabled (rows s ! i)"
  by (simp_all add: setChecked_def)

lemma registryOk_fields_eq:
  "registryOk s \<Longrightarrow> layers s' = layers s \<Longrightarrow> rows s' = rows s \<Longrightarrow> visible s' = visible s \<Longrightarrow> registryOk s'"
  by (simp add: registryOk_def rowsOk_def visOk_def)

lemma registryOk_cbChange:
  assumes i: "registryOk s" and n: "i < length (rows s)" and d: "\<not> r_disabled (rows s ! i)"
  shows "registryOk (cbChange E i s)"
proof -
  define l where "l = r_layer (rows s ! i)"
  from registryOk_row[OF i n] d
  have mem: "l \<in> set (layers s)" and ne: "\<not> emptyGeom l" by (simp_all add: l_def)
  define s1 where "s1 = s\<lparr>visible := insert (full l) (visible s)\<rparr>"
  have i1: "registryOk s1" unfolding s1_def by (rule registryOk_insert[OF i mem ne])
  have n1: "i < length (rows s1)" using n by (simp add: s1_def)
  show ?thesis
  proof (cases "r_checked (rows s ! i)")
    case False
    then have "cbChange E i s = emit (SetLayerVisible (full l) False) (s\<lparr>visible := visible s - {full l}\<rparr>)"
      by (simp add: cbChange_def Let_def l_def)
    then show ?thesis by (simp add: registryOk_emit registryOk_delete i)
  next
    case c: True
    show ?thesis
    proof (cases "full l \<in> loaded s")
      case True
      then have "cbChange E i s = applyOrderToMap (emit (SetLayerVisible (full l) True) s1)"
        using c by (simp add: cbChange_def Let_def l_def s1_def)
      then show ?thesis by (simp add: registryOk_applyOrderToMap registryOk_emit i1)
    next
      case False
      obtain r s2 where ld: "loadLayerInViewport E l (r_isActive (rows s ! i)) s1 = (r, s2)"
        by (cases "loadLayerInViewport E l (r_isActive (rows s ! i)) s1")
      have es: "engineStep s1 s2" by (rule engineStep_loadLayerInViewport[OF ld])
      have i2: "registryOk s2" by (rule registryOk_engineStep[OF es i1])
      have n2: "i < length (rows s2)" using es n1 by (simp add: engineStep_def)
      show ?thesis
      proof (cases r)
        case (Inl err)
        have "cbChange E i s = alert err (setChecked i False (s2\<lparr>visible := visible s2 - {full l}\<rparr>))"
          using c False ld Inl by (simp add: cbChange_def Let_def l_def s1_def)
        moreover have "registryOk (setChecked i False (s2\<lparr>visible := visible s2 - {full l}\<rparr>))"
          by (rule registryOk_setChecked) (simp_all add: registryOk_delete i2 n2)
        ultimately show ?thesis by (simp add: registryOk_alert)
      next
        case (Inr fc)
        have "cbChange E i s = s2"
          using c False ld Inr by (simp add: cbChange_def Let_def l_def s1_def)
        then show ?thesis by (simp add: i2)
      qed
    qed
  qed
qed

lemma registryOk_toggleCheckbox: "registryOk s \<Longrightarrow> registryOk (toggleCheckbox E i s)"
proof -
  assume i: "registryOk s"
  show ?thesis
  proof (cases "i < length (rows s) \<and> \<not> r_disabled (rows s ! i)")
    case False
    then show ?thesis using i by (auto simp: toggleCheckbox_def)
  next
    case True
    let ?t = "setChecked i (\<not> r_checked (rows s ! i)) s"
    have "registryOk ?t" using i True by (simp add: registryOk_setChecked)
    moreover have "i < length (rows ?t)" "\<not> r_disabled (rows ?t ! i)"
      using True by (simp_all add: setChecked_fields)
    ultimately have "registryOk (cbChange E i ?t)" by (rule registryOk_cbChange)
    then show ?thesis using True by (simp add: toggleCheckbox_def)
  qed
qed

lemma engineStep_from_fit: "engineStep (fitBounds4326 E ext a) b = engineStep a b"
  by (simp add: fitBounds4326_def Let_def emit_def engineStep_def)

lemma engineStep_from_emit: "engineStep (emit e a) b = engineStep a b"
  by (simp add: emit_def engineStep_def)

lemma engineStep_rowClickTry: "rowClickTry E l s = (r, s') \<Longrightarrow> engineStep s s'"
  unfolding rowClickTry_def Let_def
  by (auto split: if_splits prod.splits sum.splits
      simp: engineStep_from_fit engineStep_from_emit
      dest!: engineStep_loadLayerInViewport engineStep_getLayerExtent4326 engineStep_runActiveViewportLoad)
     (blast intro: engineStep_trans)+

lemma registryOk_active: "registryOk s \<Longrightarrow> registryOk (s\<lparr>active := a\<rparr>)"
  by (rule registryOk_fields_eq) simp_all

lemma registryOk_rowClick: assumes i: "registryOk s" shows "registryOk (rowClick E i s)"
proof (cases "i < length (rows s)")
  case False
  then show ?thesis using i by (simp add: rowClick_def)
next
  case n: True
  define l where "l = r_layer (rows s ! i)"
  define s1 where "s1 = renderLayerList (layerSearch s) (s\<lparr>active := Some l\<rparr>)"
  have i1: "registryOk s1" unfolding s1_def by (intro registryOk_render registryOk_active i)
  have mem: "l \<in> set (layers s1)" using registryOk_row[OF i n] by (simp add: l_def s1_def render_fields)
  show ?thesis
  proof (cases "r_emptyGeom (rows s ! i)")
    case True
    then have "rowClick E i s = s1\<lparr>activeLayerLabel := full l, featureCount := 0, srcBadge := ''viewport''\<rparr>"
      using n by (simp add: rowClick_def Let_def l_def s1_def)
    moreover have "registryOk (s1\<lparr>activeLayerLabel := full l, featureCount := 0, srcBadge := ''viewport''\<rparr>)"
      by (rule registryOk_fields_eq[OF i1]) simp_all
    ultimately show ?thesis by simp
  next
    case False
    then have ne: "\<not> emptyGeom l" using registryOk_row[OF i n] by (simp add: l_def)
    define s2 where "s2 = s1\<lparr>visible := insert (full l) (visible s1)\<rparr>"
    have i2: "registryOk s2" unfolding s2_def by (rule registryOk_insert[OF i1 mem ne])
    obtain r s3 where t: "rowClickTry E l s2 = (r, s3)" by (cases "rowClickTry E l s2")
    have i3: "registryOk s3" by (rule registryOk_engineStep[OF engineStep_rowClickTry[OF t] i2])
    have "rowClick E i s = (case r of Inl err \<Rightarrow> alert err s3 | Inr u \<Rightarrow> s3)"
      using n False t by (simp add: rowClick_def Let_def l_def s1_def s2_def)
    then show ?thesis using i3 by (cases r) (simp_all add: registryOk_alert)
  qed
qed

lemma registryOk_moveLayer: "registryOk s \<Longrightarrow> registryOk (moveLayer x d s)"
  by (auto simp: moveLayer_def split: option.splits intro!: registryOk_render registryOk_applyOrderToMap
      intro: registryOk_fields_eq)

lemma registryOk_rowMove: "registryOk s \<Longrightarrow> registryOk (rowMove i d s)"
  by (simp add: rowMove_def registryOk_moveLayer)

lemma registryOk_btnReload: "registryOk s \<Longrightarrow> registryOk (btnReload E s)"
  by (auto simp: btnReload_def split: prod.splits sum.splits
      dest!: engineStep_runActiveViewportLoad intro: registryOk_alert registryOk_engineStep)

lemma registryOk_moveEndFired: "registryOk s \<Longrightarrow> registryOk (moveEndFired E s)"
  using engineStep_runActiveViewportLoad[of E s "fst (runActiveViewportLoad E s)" "snd (runActiveViewportLoad E s)"]
  by (simp add: moveEndFired_def registryOk_engineStep)

lemma registryOk_btnClear: "registryOk s \<Longrightarrow> registryOk (btnClear s)"
  unfolding btnClear_def Let_def
  by (rule registryOk_render) (simp add: registryOk_def rowsOk_def visOk_def emit_def)

lemma registryOk_btnRunSql: assumes i: "registryOk s" shows "registryOk (btnRunSql E s)"
proof -
  have adv: "\<And>t. registryOk t \<Longrightarrow> registryOk (t\<lparr>visible := insert advId (visible t)\<rparr>)"
  proof -
    fix t assume t: "registryOk t"
    then have "\<forall>l\<in>set (layers t). full l \<noteq> advId" by (simp add: registryOk_def wfLayers_def)
    with t show "registryOk (t\<lparr>visible := insert advId (visible t)\<rparr>)"
      by (auto simp: registryOk_def rowsOk_def visOk_def)
  qed
  obtain r s1 where p: "postJson E QAdhoc (trim (sqlEditor s)) s = (r, s1)"
    by (cases "postJson E QAdhoc (trim (sqlEditor s)) s")
  have i1: "registryOk s1" by (rule registryOk_engineStep[OF engineStep_postJson[OF p] i])
  show ?thesis
  proof (cases "trim (sqlEditor s) = []")
    case True
    then show ?thesis using i by (simp add: btnRunSql_def)
  next
    case False
    show ?thesis
    proof (cases r)
      case (Inl err)
      then show ?thesis using False p i1 by (simp add: btnRunSql_def registryOk_alert)
    next
      case (Inr data)
      show ?thesis
      proof (cases "rowsToFeatureCollection E (rowsOf data) = []")
        case True
        then show ?thesis using False p i1 Inr by (simp add: btnRunSql_def registryOk_alert)
      next
        case ne: False
        have "registryOk (s1\<lparr>visible := insert advId (visible s1)\<rparr>)" by (rule adv[OF i1])
        then have "registryOk (btnRunSql E s)"
          using False p Inr ne
          by (simp add: btnRunSql_def Let_def applyOrderToMap_def emit_def registryOk_def rowsOk_def visOk_def)
        then show ?thesis .
      qed
    qed
  qed
qed

lemma registryOk_step: "registryOk s \<Longrightarrow> registryOk (step E s e)"
proof (cases e)
  case (Search q)
  assume "registryOk s"
  then have "registryOk (s\<lparr>layerSearch := q\<rparr>)" by (rule registryOk_fields_eq) simp_all
  then show ?thesis using Search by (simp add: registryOk_render)
next
  case (EditSql q)
  assume "registryOk s"
  then have "registryOk (s\<lparr>sqlEditor := q\<rparr>)" by (rule registryOk_fields_eq) simp_all
  then show ?thesis using EditSql by simp
next
  case (Pan v)
  assume "registryOk s"
  then have "registryOk (s\<lparr>bounds := v\<rparr>)" by (rule registryOk_fields_eq) simp_all
  then show ?thesis using Pan by simp
qed (simp_all add: registryOk_btnReload registryOk_btnClear registryOk_btnRunSql registryOk_moveEndFired registryOk_toggleCheckbox
      registryOk_rowClick registryOk_rowMove)

lemma registryOk_run: "registryOk s \<Longrightarrow> registryOk (run E s es)"
  unfolding run_def by (induction es arbitrary: s) (simp_all add: registryOk_step)

lemma fromCatalog_load: "loadLayerCatalog rep = Inr ls \<Longrightarrow> fromCatalog ls"
  by (auto simp: loadLayerCatalog_def fromCatalog_def layerOf_def Let_def split: sum.splits)

lemma advId_no_dot: "CHR ''.'' \<in> set x \<Longrightarrow> x \<noteq> advId"
  by (auto simp: advId_def)

lemma wfLayers_fromCatalog: "fromCatalog ls \<Longrightarrow> wfLayers ls"
  by (auto simp: fromCatalog_def wfLayers_def dest: advId_no_dot)

lemma isFinite_countOf: "isFinite (countOf E v)"
  by (simp add: countOf_def Let_def)

lemma wfLayers_hydrated:
  "fromCatalog ls \<Longrightarrow> wfLayers (map (\<lambda>l. l\<lparr>geomCount := Some (countOf E (rw (full l)))\<rparr>) ls)"
  by (auto simp: fromCatalog_def wfLayers_def isFinite_countOf dest: advId_no_dot)

lemma hydrate_cases:
  "hydrateGeomCounts E ls s = (r, s') \<Longrightarrow>
     engineStep s s' \<and>
     (case r of Inl err \<Rightarrow> True
      | Inr ls' \<Rightarrow> ls' = ls \<or> (\<exists>rw. ls' = map (\<lambda>l. l\<lparr>geomCount := Some (countOf E (rw (full l)))\<rparr>) ls))"
  by (auto simp: hydrateGeomCounts_def Let_def engineStep_refl split: if_splits prod.splits sum.splits
      dest: engineStep_postJson)

lemma pickActive_mem: "pickActive ls = Some a \<Longrightarrow> a \<in> set ls"
  by (auto simp: pickActive_def find_Some_iff split: option.splits list.splits)

lemma activeHasData_iff: "activeHasData s = (\<exists>a. active s = Some a \<and> hasData a)"
  by (auto simp: activeHasData_def hasData_def split: option.splits)

lemma registryOk_initSelect:
  assumes fc: "fromCatalog (layers s1)" and r: "rows s1 = []" and v: "visible s1 = {}"
  shows "registryOk (initSelect E s1)"
proof -
  obtain r t where h: "hydrateGeomCounts E (layers s1) s1 = (r, t)"
    by (cases "hydrateGeomCounts E (layers s1) s1")
  define s2 where "s2 = (case r of Inl err \<Rightarrow> t | Inr ls' \<Rightarrow> t\<lparr>layers := ls'\<rparr>)"
  from hydrate_cases[OF h] have es: "engineStep s1 t" and
    rr: "case r of Inl err \<Rightarrow> True
      | Inr ls' \<Rightarrow> ls' = layers s1 \<or> (\<exists>rw. ls' = map (\<lambda>l. l\<lparr>geomCount := Some (countOf E (rw (full l)))\<rparr>) (layers s1))"
    by simp_all
  have wf2: "wfLayers (layers s2)"
  proof (cases r)
    case (Inl err)
    then have "layers s2 = layers s1" using es by (simp add: s2_def engineStep_def)
    then show ?thesis using fc by (simp add: wfLayers_fromCatalog)
  next
    case (Inr ls')
    then have "layers s2 = ls'" by (simp add: s2_def)
    then show ?thesis using rr Inr fc by (auto simp: wfLayers_fromCatalog wfLayers_hydrated)
  qed
  have rv2: "rows s2 = []" "visible s2 = {}"
    using es r v by (cases r; simp add: s2_def engineStep_def)+
  define s3 where "s3 = ensureOrderInitialized s2"
  have f3: "layers s3 = layers s2" "rows s3 = []" "visible s3 = {}"
    using rv2 by (simp_all add: s3_def ensureOrderInitialized_def applyOrderToMap_def emit_def)
  define s4 where "s4 = s3\<lparr>active := pickActive (layers s3)\<rparr>"
  have i4: "registryOk s4"
    using wf2 f3 by (simp add: s4_def registryOk_def rowsOk_def visOk_def)
  define s5 where "s5 = (if activeHasData s4
                then s4\<lparr>visible := insert (full (the (active s4))) (visible s4)\<rparr> else s4)"
  have i5: "registryOk s5"
  proof (cases "activeHasData s4")
    case False
    then show ?thesis using i4 by (simp add: s5_def)
  next
    case True
    then obtain a where a: "active s4 = Some a" "hasData a" by (auto simp: activeHasData_iff)
    then have "pickActive (layers s4) = Some a" by (simp add: s4_def)
    then have mem: "a \<in> set (layers s4)" by (rule pickActive_mem)
    from i4 have "wfLayers (layers s4)" by (simp add: registryOk_def)
    from wfLayers_finite[OF this mem] a(2) have "\<not> emptyGeom a" by (simp add: hasData_iff)
    from registryOk_insert[OF i4 mem this] show ?thesis using True a by (simp add: s5_def)
  qed
  have "initSelect E s1 = renderLayerList [] s5"
    using h by (cases r; simp add: initSelect_def Let_def s2_def s3_def s4_def s5_def)
  then show ?thesis using i5 by (simp add: registryOk_render)
qed

lemma engineStep_initLoad: "initLoad E s = (r, s') \<Longrightarrow> engineStep s s'"
  unfolding initLoad_def Let_def
  by (auto split: if_splits prod.splits sum.splits option.splits
      simp: engineStep_from_fit engineStep_from_emit engineStep_def[of s "s\<lparr>activeLayerLabel := _, featureCount := _, srcBadge := _\<rparr>"] engineStep_refl
      dest!: engineStep_loadLayerInViewport engineStep_getLayerExtent4326)
     (blast intro: engineStep_trans)+

lemma registryOk_initial: "registryOk (initial view)"
  by (simp add: registryOk_def initial_def wfLayers_def rowsOk_def visOk_def)

lemma registryOk_init: "registryOk (snd (init E rep (initial view)))"
proof (cases "loadLayerCatalog rep")
  case (Inl err)
  then show ?thesis by (simp add: init_def registryOk_initial)
next
  case (Inr ls)
  show ?thesis
  proof (cases "ls = []")
    case True
    then show ?thesis using Inr
      by (simp add: init_def registryOk_def initial_def wfLayers_def rowsOk_def visOk_def)
  next
    case False
    define s1 where "s1 = (initial view)\<lparr>layers := ls\<rparr>"
    have "registryOk (initSelect E s1)"
      by (rule registryOk_initSelect) (simp_all add: s1_def initial_def fromCatalog_load[OF Inr])
    moreover have "engineStep (initSelect E s1) (snd (initLoad E (initSelect E s1)))"
      by (rule engineStep_initLoad[of E _ "fst (initLoad E (initSelect E s1))"]) simp
    ultimately have "registryOk (snd (initLoad E (initSelect E s1)))" by (rule registryOk_engineStep[rotated])
    then show ?thesis using Inr False by (simp add: init_def s1_def)
  qed
qed

section \<open>Unfolding the model on concrete pages\<close>

lemmas ex_defs = exTable_def exCatalog_def exLayer_def exView_def exCounts_def exShape_def exExtent_def
  exNullExtent_def exEnv_def exRemote_def exDown_def exNulls_def exExtents_def

lemmas model_defs = init_def initSelect_def initLoad_def loadLayerCatalog_def tablesOf_def layerOf_def orElse_def
  hydrateGeomCounts_def postJson_def emit_def alert_def countOf_def ensureOrderInitialized_def applyOrderToMap_def
  pickActive_def hasData_def activeHasData_def renderLayerList_def mkRow_def emptyGeom_def
  loadLayerInViewport_def getLayerSrid_def getLayerExtent4326_def extentUsable_def fitBounds4326_def
  rowsToFeatureCollection_def toFeature_def initial_def List.map_filter_def trim_def toLowerCase_def
  run_def toggleCheckbox_def cbChange_def setChecked_def rowClick_def rowClickTry_def runActiveViewportLoad_def
  rowMove_def moveLayer_def moveInOrder_def btnReload_def btnClear_def btnRunSql_def moveEndFired_def
  isSpace_def nl_def advId_def


section \<open>The Clear button\<close>

lemma exStarted_fields:
  "layers exStarted = [exLayer ''a'' (Some (Num 0)), exLayer ''b'' (Some (Num 5))]"
  "active exStarted = Some (exLayer ''b'' (Some (Num 5)))"
  "visible exStarted = {''public.b''}"
  "loaded exStarted = {''public.b''}"
  "order exStarted = [''public.a'', ''public.b'']"
  "sridCache exStarted = [''public.b'' \<mapsto> Num 4326]"
  "sent exStarted = 5"
  "rows exStarted =
     [\<lparr>r_layer = exLayer ''a'' (Some (Num 0)), r_isActive = False, r_emptyGeom = True,
        r_checked = False, r_disabled = True\<rparr>,
      \<lparr>r_layer = exLayer ''b'' (Some (Num 5)), r_isActive = True, r_emptyGeom = False,
        r_checked = True, r_disabled = False\<rparr>]"
  "layerSearch exStarted = []"
  "featureCount exStarted = 1"
  "bounds exStarted = \<lparr>west = Num 2, south = Num 2, east = Num 3, north = Num 3\<rparr>"
  by (simp_all add: exStarted_def ex_defs model_defs Let_def)

text \<open>
  Claim C1, as the code has it. The Clear handler empties \<open>visible\<close>, \<open>loaded\<close> and the
  SRID cache and tells the rendering surface to drop every layer; it leaves the catalog,
  the stacking order and the active layer as they were.
\<close>

theorem clear_resets_loaded_state:
  "visible (btnClear s) = {} \<and> loaded (btnClear s) = {} \<and> sridCache (btnClear s) = Map.empty
   \<and> layers (btnClear s) = layers s \<and> order (btnClear s) = order s \<and> active (btnClear s) = active s
   \<and> trace (btnClear s) = trace s @ [MapClear]"
  by (simp add: btnClear_def Let_def render_fields emit_def)

text \<open>
  Claim C1 as stated (all five pieces empty after a clear) fails on the page after
  start-up: the order still lists both layers and \<^verbatim>\<open>public.b\<close> is still active.
\<close>

theorem clear_keeps_order_and_active:
  "order (btnClear exStarted) = [''public.a'', ''public.b'']
   \<and> active (btnClear exStarted) = Some (exLayer ''b'' (Some (Num 5)))
   \<and> \<not> (visible (btnClear exStarted) = {} \<and> loaded (btnClear exStarted) = {}
        \<and> order (btnClear exStarted) = [] \<and> active (btnClear exStarted) = None
        \<and> sridCache (btnClear exStarted) = Map.empty)"
  by (simp add: btnClear_def Let_def render_fields emit_def exStarted_fields)

text \<open>The same page: one visible layer before the clear, none after, and the catalog kept.\<close>

theorem clear_resets_loaded_state_witness:
  "visible exStarted = {''public.b''} \<and> visible (btnClear exStarted) = {}
   \<and> loaded (btnClear exStarted) = {} \<and> sridCache (btnClear exStarted) = Map.empty
   \<and> layers (btnClear exStarted) = [exLayer ''a'' (Some (Num 0)), exLayer ''b'' (Some (Num 5))]"
  using clear_resets_loaded_state[of exStarted] by (simp add: exStarted_fields)

section \<open>The viewport query\<close>

lemma geomExpr_iff:
  "(geomExpr l srid = ''ST_Transform('' @ geomCol l @ '', 4326)'') = (srid \<noteq> Num 4326)"
  "(geomExpr l srid = geomCol l) = (srid = Num 4326)"
  by (auto simp: geomExpr_def dest: arg_cong[where f = length])

lemma buildViewportSQL_trimmed:
  "buildViewportSQL E l b srid n =
       ''SELECT'' @ nl @
       ''          *,'' @ nl @
       ''          ST_AsGeoJSON('' @ geomExpr l srid @ '') AS geojson'' @ nl @
       ''        FROM '' @ full l @ nl @
       ''        WHERE '' @ geomCol l @ '' IS NOT NULL'' @ nl @
       ''          AND ST_Intersects('' @ nl @
       ''            '' @ geomExpr l srid @ '','' @ nl @
       ''            ST_MakeEnvelope('' @ numberText E (west b) @ '', '' @ numberText E (south b)
          @ '', '' @ numberText E (east b) @ '', '' @ numberText E (north b) @ '', 4326)'' @ nl @
       ''          )'' @ nl @
       ''        LIMIT '' @ natText n @ '';''"
  (is "_ = ?b")
proof -
  have e: "buildViewportSQL E l b srid n = trim ((nl @ ''        '') @ ?b @ (nl @ ''      ''))"
    by (simp add: buildViewportSQL_def)
  show ?thesis
    unfolding e by (rule trim_pad) (auto simp: nl_def isSpace_def)
qed

text \<open>
  Claim C7. For every layer, viewport and SRID, with the limit 600 that the one caller
  passes, \<^verbatim>\<open>buildViewportSQL\<close> gives the query below: all columns plus the geometry as
  GeoJSON, rows with a geometry that is not null and intersects the envelope of the
  viewport in 4326, at most 600 rows. The geometry expression is the column wrapped in
  \<^verbatim>\<open>ST_Transform(..., 4326)\<close> exactly when the SRID is not 4326, and the bare column
  exactly when it is.
\<close>

theorem buildViewportSQL_query:
  "buildViewportSQL E l b srid 600 =
       ''SELECT'' @ nl @
       ''          *,'' @ nl @
       ''          ST_AsGeoJSON('' @ geomExpr l srid @ '') AS geojson'' @ nl @
       ''        FROM '' @ full l @ nl @
       ''        WHERE '' @ geomCol l @ '' IS NOT NULL'' @ nl @
       ''          AND ST_Intersects('' @ nl @
       ''            '' @ geomExpr l srid @ '','' @ nl @
       ''            ST_MakeEnvelope('' @ numberText E (west b) @ '', '' @ numberText E (south b)
          @ '', '' @ numberText E (east b) @ '', '' @ numberText E (north b) @ '', 4326)'' @ nl @
       ''          )'' @ nl @
       ''        LIMIT 600;''
   \<and> (geomExpr l srid = ''ST_Transform('' @ geomCol l @ '', 4326)'') = (srid \<noteq> Num 4326)
   \<and> (geomExpr l srid = geomCol l) = (srid = Num 4326)"
proof (intro conjI)
  show "(geomExpr l srid = ''ST_Transform('' @ geomCol l @ '', 4326)'') = (srid \<noteq> Num 4326)"
    by (rule geomExpr_iff)
  show "(geomExpr l srid = geomCol l) = (srid = Num 4326)"
    by (rule geomExpr_iff)
qed (simp add: buildViewportSQL_trimmed natText_600)

text \<open>The two query texts for \<^verbatim>\<open>public.b\<close>, with SRID 3857 and with SRID 4326.\<close>

theorem buildViewportSQL_query_witness:
  "buildViewportSQL (exEnv exRemote) (exLayer ''b'' None) exView (Num 3857) 600 =
       ''SELECT'' @ nl @
       ''          *,'' @ nl @
       ''          ST_AsGeoJSON(ST_Transform(geom, 4326)) AS geojson'' @ nl @
       ''        FROM public.b'' @ nl @
       ''        WHERE geom IS NOT NULL'' @ nl @
       ''          AND ST_Intersects('' @ nl @
       ''            ST_Transform(geom, 4326),'' @ nl @
       ''            ST_MakeEnvelope(0, 0, 0, 0, 4326)'' @ nl @
       ''          )'' @ nl @
       ''        LIMIT 600;''
   \<and> buildViewportSQL (exEnv exRemote) (exLayer ''b'' None) exView (Num 4326) 600 =
       ''SELECT'' @ nl @
       ''          *,'' @ nl @
       ''          ST_AsGeoJSON(geom) AS geojson'' @ nl @
       ''        FROM public.b'' @ nl @
       ''        WHERE geom IS NOT NULL'' @ nl @
       ''          AND ST_Intersects('' @ nl @
       ''            geom,'' @ nl @
       ''            ST_MakeEnvelope(0, 0, 0, 0, 4326)'' @ nl @
       ''          )'' @ nl @
       ''        LIMIT 600;''"
  using buildViewportSQL_query[of "exEnv exRemote" "exLayer ''b'' None" exView "Num 3857"]
    buildViewportSQL_query[of "exEnv exRemote" "exLayer ''b'' None" exView "Num 4326"]
  by (simp add: geomExpr_def exEnv_def exLayer_def exView_def)

section \<open>Visible layers are never known to be empty\<close>

text \<open>
  Claim C2. Start the page with any catalog reply and any query service, then let any
  events happen (check-box toggles, row clicks, and all the others). Every cataloged
  layer that is then visible has a count that is absent or greater than zero, so none is
  known to be empty.
\<close>

theorem visible_never_known_empty:
  assumes "l \<in> set (layers (run E (snd (init E rep (initial view))) es))"
    and "full l \<in> visible (run E (snd (init E rep (initial view))) es)"
  shows "(geomCount l = None \<or> (\<exists>c. geomCount l = Some c \<and> gt0 c)) \<and> \<not> emptyGeom l"
proof -
  let ?s = "run E (snd (init E rep (initial view))) es"
  have ok: "registryOk ?s" by (intro registryOk_run registryOk_init)
  then have "visOk ?s" and wf: "wfLayers (layers ?s)" by (simp_all add: registryOk_def)
  with assms have h: "hasData l" unfolding visOk_def by blast
  moreover have "\<not> emptyGeom l"
    using wfLayers_finite[OF wf assms(1)] h by (simp add: hasData_iff)
  ultimately show ?thesis by (auto simp: hasData_def split: option.splits)
qed

text \<open>
  The scenario of the specification, \<^verbatim>\<open>a\<close> with 0 and \<^verbatim>\<open>b\<close> with 5 geometries:
  after a click on the row of \<^verbatim>\<open>a\<close> and a click on its check box, \<^verbatim>\<open>b\<close> is visible
  and \<^verbatim>\<open>a\<close> is not.
\<close>

theorem visible_never_known_empty_witness:
  "exLayer ''b'' (Some (Num 5)) \<in> set (layers (run (exEnv exRemote) exStarted [RowClick 0, CheckboxToggle 0]))
   \<and> full (exLayer ''b'' (Some (Num 5))) \<in> visible (run (exEnv exRemote) exStarted [RowClick 0, CheckboxToggle 0])
   \<and> ''public.a'' \<notin> visible (run (exEnv exRemote) exStarted [RowClick 0, CheckboxToggle 0])
   \<and> (geomCount (exLayer ''b'' (Some (Num 5))) = None
        \<or> (\<exists>c. geomCount (exLayer ''b'' (Some (Num 5))) = Some c \<and> gt0 c))
   \<and> \<not> emptyGeom (exLayer ''b'' (Some (Num 5)))"
proof -
  have a: "exLayer ''b'' (Some (Num 5)) \<in> set (layers (run (exEnv exRemote) exStarted [RowClick 0, CheckboxToggle 0]))"
    by (simp add: exStarted_fields ex_defs model_defs Let_def)
  have b: "full (exLayer ''b'' (Some (Num 5))) \<in> visible (run (exEnv exRemote) exStarted [RowClick 0, CheckboxToggle 0])"
    by (simp add: exStarted_fields ex_defs model_defs Let_def)
  have c: "''public.a'' \<notin> visible (run (exEnv exRemote) exStarted [RowClick 0, CheckboxToggle 0])"
    by (simp add: exStarted_fields ex_defs model_defs Let_def)
  from visible_never_known_empty[OF a[unfolded exStarted_def] b[unfolded exStarted_def]] a b c
  show ?thesis by blast
qed

section \<open>The stacking order keeps no duplicates\<close>

lemma indexOf_neg: "(indexOf xs x < 0) = (x \<notin> set xs)"
  by (induction xs) (auto simp: Let_def)

lemma indexOf_nth:
  "x \<in> set xs \<Longrightarrow> 0 \<le> indexOf xs x \<and> nat (indexOf xs x) < length xs \<and> xs ! nat (indexOf xs x) = x"
proof (induction xs)
  case Nil
  then show ?case by simp
next
  case (Cons y ys)
  show ?case
  proof (cases "y = x")
    case True
    then show ?thesis by simp
  next
    case False
    with Cons.prems have m: "x \<in> set ys" by simp
    from Cons.IH[OF m] have "0 \<le> indexOf ys x" "nat (indexOf ys x) < length ys"
      "ys ! nat (indexOf ys x) = x" by simp_all
    then show ?thesis using False by (simp add: Let_def nat_add_distrib)
  qed
qed

lemma indexOf_last: "distinct xs \<Longrightarrow> xs \<noteq> [] \<Longrightarrow> indexOf xs (last xs) = int (length xs) - 1"
proof (induction xs)
  case Nil
  then show ?case by simp
next
  case (Cons y ys)
  show ?case
  proof (cases "ys = []")
    case True
    then show ?thesis by simp
  next
    case False
    then have "last ys \<in> set ys" by simp
    with Cons.prems have "y \<noteq> last ys" by auto
    moreover have "indexOf ys (last ys) = int (length ys) - 1" using Cons False by simp
    moreover have "0 < length ys" using False by simp
    ultimately show ?thesis using False by (simp add: Let_def)
  qed
qed

lemma moveInOrder_Some:
  assumes "moveInOrder ord x d = Some ord'"
  shows "\<exists>i j. i < length ord \<and> j < length ord \<and> int j = int i + d \<and> ord ! i = x
           \<and> ord' = ord[i := ord ! j, j := x]"
proof -
  from assms have m: "x \<in> set ord"
    using indexOf_neg[of ord x] by (auto simp: moveInOrder_def Let_def split: if_splits)
  define i where "i = nat (indexOf ord x)"
  from indexOf_nth[OF m] have i: "indexOf ord x = int i" "i < length ord" "ord ! i = x"
    by (simp_all add: i_def)
  define j where "j = nat (int i + d)"
  from assms i have j: "0 \<le> int i + d" "int i + d < int (length ord)"
    and o: "ord' = ord[i := ord ! j, j := ord ! i]"
    by (auto simp: moveInOrder_def Let_def j_def split: if_splits)
  from j have "j < length ord" "int j = int i + d" by (simp_all add: j_def)
  with i o show ?thesis by blast
qed

lemma moveInOrder_None:
  "(moveInOrder ord x d = None) =
     (x \<notin> set ord \<or> indexOf ord x + d < 0 \<or> int (length ord) \<le> indexOf ord x + d)"
  using indexOf_neg[of ord x] by (auto simp: moveInOrder_def Let_def)

lemma moveInOrder_distinct: "moveInOrder ord x d = Some ord' \<Longrightarrow> distinct ord \<Longrightarrow> distinct ord'"
  by (drule moveInOrder_Some) auto

lemma order_moveLayer:
  "order (moveLayer x d s) = (case moveInOrder (order s) x d of None \<Rightarrow> order s | Some ord \<Rightarrow> ord)"
  by (simp add: moveLayer_def render_fields applyOrderToMap_def emit_def split: option.splits)

lemma order_btnRunSql:
  "order (btnRunSql E s) = order s \<or> (advId \<notin> set (order s) \<and> order (btnRunSql E s) = order s @ [advId])"
  by (simp add: btnRunSql_def Let_def postJson_def emit_def alert_def applyOrderToMap_def
      split: sum.splits)

lemma keeps_toggleCheckbox:
  "order (toggleCheckbox E i s) = order s \<and>
   (sridCache s k = Some v \<longrightarrow> sridCache (toggleCheckbox E i s) k = Some v)"
  by (auto simp: toggleCheckbox_def cbChange_def Let_def setChecked_def alert_def emit_def
      applyOrderToMap_def engineStep_def
      split: prod.splits sum.splits dest!: engineStep_loadLayerInViewport)

lemma keeps_rowClick:
  "order (rowClick E i s) = order s \<and>
   (sridCache s k = Some v \<longrightarrow> sridCache (rowClick E i s) k = Some v)"
  by (auto simp: rowClick_def Let_def alert_def emit_def render_fields engineStep_def
      split: prod.splits sum.splits dest!: engineStep_rowClickTry)

lemma keeps_btnReload:
  "order (btnReload E s) = order s \<and>
   (sridCache s k = Some v \<longrightarrow> sridCache (btnReload E s) k = Some v)"
  by (auto simp: btnReload_def alert_def emit_def engineStep_def
      split: prod.splits sum.splits dest!: engineStep_runActiveViewportLoad)

lemma keeps_moveEndFired:
  "order (moveEndFired E s) = order s \<and>
   (sridCache s k = Some v \<longrightarrow> sridCache (moveEndFired E s) k = Some v)"
  using engineStep_runActiveViewportLoad[of E s "fst (runActiveViewportLoad E s)" "snd (runActiveViewportLoad E s)"]
  by (simp add: moveEndFired_def engineStep_def)

lemma cache_moveLayer: "sridCache (moveLayer x d s) = sridCache s"
  by (simp add: moveLayer_def render_fields applyOrderToMap_def emit_def split: option.splits)

lemma cache_btnRunSql: "sridCache (btnRunSql E s) = sridCache s"
  by (simp add: btnRunSql_def Let_def postJson_def emit_def alert_def applyOrderToMap_def
      split: sum.splits)

lemma distinct_step: "distinct (order s) \<Longrightarrow> distinct (order (step E s e))"
proof (cases e)
  case RunSql
  assume "distinct (order s)"
  then show ?thesis using RunSql order_btnRunSql[of E s] by auto
next
  case (Up i)
  assume "distinct (order s)"
  then show ?thesis using Up
    by (auto simp: rowMove_def order_moveLayer split: option.splits dest: moveInOrder_distinct)
next
  case (Down i)
  assume "distinct (order s)"
  then show ?thesis using Down
    by (auto simp: rowMove_def order_moveLayer split: option.splits dest: moveInOrder_distinct)
qed (simp_all add: keeps_toggleCheckbox keeps_rowClick keeps_btnReload keeps_moveEndFired
      render_fields btnClear_def Let_def emit_def)

lemma distinct_run: "distinct (order s) \<Longrightarrow> distinct (order (run E s es))"
  unfolding run_def by (induction es arbitrary: s) (simp_all add: distinct_step)

text \<open>
  Claim C9. From an order without duplicates, no sequence of events (the Up and Down
  buttons, which call \<^verbatim>\<open>moveLayer\<close>, the ad-hoc query, which adds the synthetic layer,
  and every other event) leads to an order with a duplicate. \<^verbatim>\<open>moveLayer\<close> changes the
  order only by exchanging the entry with the one \<open>d\<close> places away (its neighbour for
  \<open>d = -1\<close> or \<open>1\<close>); it does nothing when the identifier is absent or the target
  position is outside the order, so nothing at the bottom going down the list or at
  the top going up. The synthetic identifier is appended only when it is not in the
  order yet.
\<close>

theorem order_never_duplicates:
  "(distinct (order s) \<longrightarrow> distinct (order (run E s es)))
   \<and> order (moveLayer x d s) = (case moveInOrder (order s) x d of None \<Rightarrow> order s | Some ord' \<Rightarrow> ord')
   \<and> (moveInOrder (order s) x d = None \<longrightarrow> moveLayer x d s = s)
   \<and> (moveInOrder ord x d = None) =
       (x \<notin> set ord \<or> indexOf ord x + d < 0 \<or> int (length ord) \<le> indexOf ord x + d)
   \<and> (\<forall>ord'. moveInOrder ord x d = Some ord' \<longrightarrow>
         (\<exists>i j. i < length ord \<and> j < length ord \<and> int j = int i + d \<and> ord ! i = x
            \<and> ord' = ord[i := ord ! j, j := x]))
   \<and> (ord \<noteq> [] \<longrightarrow> moveInOrder ord (hd ord) (-1) = None)
   \<and> (distinct ord \<and> ord \<noteq> [] \<longrightarrow> moveInOrder ord (last ord) 1 = None)
   \<and> (order (btnRunSql E s) = order s
        \<or> (advId \<notin> set (order s) \<and> order (btnRunSql E s) = order s @ [advId]))"
proof (intro conjI)
  show "distinct (order s) \<longrightarrow> distinct (order (run E s es))" by (simp add: distinct_run)
  show "order (moveLayer x d s) = (case moveInOrder (order s) x d of None \<Rightarrow> order s | Some ord' \<Rightarrow> ord')"
    by (rule order_moveLayer)
  show "moveInOrder (order s) x d = None \<longrightarrow> moveLayer x d s = s"
    by (simp add: moveLayer_def)
  show "(moveInOrder ord x d = None) =
       (x \<notin> set ord \<or> indexOf ord x + d < 0 \<or> int (length ord) \<le> indexOf ord x + d)"
    by (rule moveInOrder_None)
  show "\<forall>ord'. moveInOrder ord x d = Some ord' \<longrightarrow>
         (\<exists>i j. i < length ord \<and> j < length ord \<and> int j = int i + d \<and> ord ! i = x
            \<and> ord' = ord[i := ord ! j, j := x])"
    using moveInOrder_Some by blast
  show "ord \<noteq> [] \<longrightarrow> moveInOrder ord (hd ord) (-1) = None"
    by (cases ord) (simp_all add: moveInOrder_def)
  show "distinct ord \<and> ord \<noteq> [] \<longrightarrow> moveInOrder ord (last ord) 1 = None"
    by (simp add: moveInOrder_None indexOf_last)
  show "order (btnRunSql E s) = order s
        \<or> (advId \<notin> set (order s) \<and> order (btnRunSql E s) = order s @ [advId])"
    by (rule order_btnRunSql)
qed

text \<open>
  On the page after start-up: moving \<^verbatim>\<open>public.a\<close> once and running an ad-hoc query
  twice gives three distinct entries.
\<close>

theorem order_never_duplicates_witness:
  "distinct (order exStarted)
   \<and> order (run (exEnv exRemote) exStarted [Down 0, EditSql ''SELECT 1'', RunSql, RunSql]) =
       [''public.b'', ''public.a'', ''advanced-sql'']
   \<and> distinct (order (run (exEnv exRemote) exStarted [Down 0, EditSql ''SELECT 1'', RunSql, RunSql]))"
proof -
  have d: "distinct (order exStarted)" by (simp add: exStarted_fields)
  have o: "order (run (exEnv exRemote) exStarted [Down 0, EditSql ''SELECT 1'', RunSql, RunSql]) =
       [''public.b'', ''public.a'', ''advanced-sql'']"
    by (simp add: exStarted_fields ex_defs model_defs Let_def)
  from order_never_duplicates[THEN conjunct1, of exStarted "exEnv exRemote" "[Down 0, EditSql ''SELECT 1'', RunSql, RunSql]"] d
  have "distinct (order (run (exEnv exRemote) exStarted [Down 0, EditSql ''SELECT 1'', RunSql, RunSql]))"
    by (rule mp)
  with d o show ?thesis by (intro conjI)
qed

section \<open>Hydration of the counts\<close>

lemma countOf_cases:
  "countOf E v = (if isNullish v \<or> \<not> isFinite (toNumber E v) then Num 0 else toNumber E v)"
  by (simp add: countOf_def Let_def)

text \<open>
  Claim C10. When the one request of \<^verbatim>\<open>hydrateGeomCounts\<close> succeeds, the function
  returns, after exactly that one request, every layer with a count: the number
  \<open>0\<close> when the value under the layer's name in the first row is \<^verbatim>\<open>null\<close> or
  missing (also when there is no first row) or does not convert to a finite number,
  and the converted number otherwise. No count stays absent, every count is finite,
  and a layer with count \<open>0\<close> is classified as empty: its check box is rendered
  disabled and unchecked.
\<close>

theorem hydrate_leaves_no_count_null:
  assumes "ls \<noteq> []" and "remote E (sent s) (countsSQL ls) = Inr data"
    and "rw = (case firstRow data of None \<Rightarrow> Map.empty | Some r \<Rightarrow> r)"
  shows "\<exists>ls' s'. hydrateGeomCounts E ls s = (Inr ls', s') \<and> sent s' = Suc (sent s)
     \<and> length ls' = length ls
     \<and> (\<forall>i<length ls. ls' ! i = (ls ! i)\<lparr>geomCount :=
            Some (if isNullish (rw (full (ls ! i))) \<or> \<not> isFinite (toNumber E (rw (full (ls ! i))))
                  then Num 0 else toNumber E (rw (full (ls ! i))))\<rparr>)
     \<and> (\<forall>l\<in>set ls'. \<exists>x. geomCount l = Some (Num x))
     \<and> (\<forall>l\<in>set ls'. geomCount l = Some (Num 0) \<longrightarrow>
           emptyGeom l \<and> (\<forall>st. r_disabled (mkRow st l) \<and> \<not> r_checked (mkRow st l)))"
proof -
  let ?ls' = "map (\<lambda>l. l\<lparr>geomCount := Some (countOf E (rw (full l)))\<rparr>) ls"
  have h: "hydrateGeomCounts E ls s = (Inr ?ls', (emit (Query QCounts (countsSQL ls)) s)\<lparr>sent := Suc (sent s)\<rparr>)"
    using assms by (simp add: hydrateGeomCounts_def postJson_def Let_def)
  have fin: "\<forall>l\<in>set ?ls'. \<exists>x. geomCount l = Some (Num x)"
  proof
    fix l assume "l \<in> set ?ls'"
    then obtain l0 :: layer where "geomCount l = Some (countOf E (rw (full l0)))" by auto
    moreover obtain x where "countOf E (rw (full l0)) = Num x"
      using isFinite_countOf[of E "rw (full l0)"] by (cases "countOf E (rw (full l0))") simp_all
    ultimately show "\<exists>x. geomCount l = Some (Num x)" by simp
  qed
  have "\<forall>i<length ls. ?ls' ! i = (ls ! i)\<lparr>geomCount :=
            Some (if isNullish (rw (full (ls ! i))) \<or> \<not> isFinite (toNumber E (rw (full (ls ! i))))
                  then Num 0 else toNumber E (rw (full (ls ! i))))\<rparr>"
  proof (intro allI impI)
    fix i assume "i < length ls"
    then show "?ls' ! i = (ls ! i)\<lparr>geomCount :=
            Some (if isNullish (rw (full (ls ! i))) \<or> \<not> isFinite (toNumber E (rw (full (ls ! i))))
                  then Num 0 else toNumber E (rw (full (ls ! i))))\<rparr>"
      by (simp only: nth_map countOf_cases)
  qed
  moreover have "\<forall>l\<in>set ?ls'. geomCount l = Some (Num 0) \<longrightarrow>
           emptyGeom l \<and> (\<forall>st. r_disabled (mkRow st l) \<and> \<not> r_checked (mkRow st l))"
    by (simp add: emptyGeom_def mkRow_def)
  ultimately show ?thesis using h fin
    by (intro exI[of _ ?ls'] exI[of _ "(emit (Query QCounts (countsSQL ls)) s)\<lparr>sent := Suc (sent s)\<rparr>"])
      (simp add: emit_def)
qed


text \<open>
  Three layers against a row that has 0 for \<^verbatim>\<open>a\<close>, 5 for \<^verbatim>\<open>b\<close> and nothing for
  \<^verbatim>\<open>c\<close>.
\<close>

theorem hydrate_leaves_no_count_null_witness:
  "fst (hydrateGeomCounts (exEnv exRemote) [exLayer ''a'' None, exLayer ''b'' None, exLayer ''c'' None]
        (initial exView)) =
     Inr [exLayer ''a'' (Some (Num 0)), exLayer ''b'' (Some (Num 5)), exLayer ''c'' (Some (Num 0))]"
proof -
  have h1: "[exLayer ''a'' None, exLayer ''b'' None, exLayer ''c'' None] \<noteq> []" by simp
  have h2: "remote (exEnv exRemote) (sent (initial exView))
      (countsSQL [exLayer ''a'' None, exLayer ''b'' None, exLayer ''c'' None]) = Inr (Some [Some exCounts])"
    by (simp add: exEnv_def exRemote_def initial_def)
  have h3: "exCounts = (case firstRow (Some [Some exCounts]) of None \<Rightarrow> Map.empty | Some r \<Rightarrow> r)"
    by simp
  from hydrate_leaves_no_count_null[OF h1 h2 h3]
  obtain ls' s' where r: "hydrateGeomCounts (exEnv exRemote)
      [exLayer ''a'' None, exLayer ''b'' None, exLayer ''c'' None] (initial exView) = (Inr ls', s')"
    and n: "length ls' = 3"
    and e: "\<forall>i<3. ls' ! i = ([exLayer ''a'' None, exLayer ''b'' None, exLayer ''c'' None] ! i)\<lparr>geomCount :=
            Some (if isNullish (exCounts (full ([exLayer ''a'' None, exLayer ''b'' None, exLayer ''c'' None] ! i)))
                     \<or> \<not> isFinite (toNumber (exEnv exRemote)
                         (exCounts (full ([exLayer ''a'' None, exLayer ''b'' None, exLayer ''c'' None] ! i))))
                  then Num 0
                  else toNumber (exEnv exRemote)
                         (exCounts (full ([exLayer ''a'' None, exLayer ''b'' None, exLayer ''c'' None] ! i))))\<rparr>"
    by auto
  from e have "ls' ! 0 = exLayer ''a'' (Some (Num 0))" "ls' ! 1 = exLayer ''b'' (Some (Num 5))"
    "ls' ! 2 = exLayer ''c'' (Some (Num 0))"
    by (simp_all add: exLayer_def exCounts_def)
  with n have "ls' = [exLayer ''a'' (Some (Num 0)), exLayer ''b'' (Some (Num 5)), exLayer ''c'' (Some (Num 0))]"
    by (simp add: list_eq_iff_nth_eq numeral_3_eq_3 numeral_2_eq_2 less_Suc_eq)
  with r show ?thesis by simp
qed

section \<open>The active layer at start-up\<close>

lemma find_first:
  "\<forall>x\<in>set pre. \<not> P x \<Longrightarrow> P l \<Longrightarrow> List.find P (pre @ l # post) = Some l"
  by (induction pre) simp_all

lemma hydrate_nonempty:
  "hydrateGeomCounts E ls s = (Inr ls', s') \<Longrightarrow> ls \<noteq> [] \<Longrightarrow> ls' \<noteq> []"
  by (auto simp: hydrateGeomCounts_def Let_def split: prod.splits sum.splits)

lemma hydrate_trace:
  "hydrateGeomCounts E ls s = (r, s') \<Longrightarrow>
     filter isLoadEffect (trace s') = filter isLoadEffect (trace s) \<and> loaded s' = loaded s"
  by (auto simp: hydrateGeomCounts_def Let_def postJson_def emit_def split: if_splits prod.splits sum.splits)

lemma initSelect_fields:
  assumes "active s1 = None" "visible s1 = {}" "loaded s1 = {}" "trace s1 = []" "layers s1 \<noteq> []"
  shows "active (initSelect E s1) = pickActive (layers (initSelect E s1))
     \<and> visible (initSelect E s1) =
          (if activeHasData (initSelect E s1) then {full (the (active (initSelect E s1)))} else {})
     \<and> loaded (initSelect E s1) = {}
     \<and> filter isLoadEffect (trace (initSelect E s1)) = []
     \<and> layers (initSelect E s1) \<noteq> []"
proof -
  obtain r t where h: "hydrateGeomCounts E (layers s1) s1 = (r, t)"
    by (cases "hydrateGeomCounts E (layers s1) s1")
  from engineStep_postJson hydrate_cases[OF h] have es: "engineStep s1 t" by simp
  from hydrate_trace[OF h] assms have tl: "filter isLoadEffect (trace t) = []" "loaded t = {}"
    by simp_all
  define s2 where "s2 = (case r of Inl err \<Rightarrow> t | Inr ls' \<Rightarrow> t\<lparr>layers := ls'\<rparr>)"
  have f2: "active s2 = None" "visible s2 = {}" "loaded s2 = {}"
    "filter isLoadEffect (trace s2) = []" "layers s2 \<noteq> []"
    using es tl assms hydrate_nonempty[OF _ assms(5), of E s1 _ t] h
    by (cases r; simp add: s2_def engineStep_def)+
  have "initSelect E s1 =
      renderLayerList [] (let s3 = ensureOrderInitialized s2;
          s4 = s3\<lparr>active := pickActive (layers s3)\<rparr>
      in (if activeHasData s4
                then s4\<lparr>visible := insert (full (the (active s4))) (visible s4)\<rparr>
                else s4))"
    using h by (cases r; simp add: initSelect_def Let_def s2_def)
  then show ?thesis using f2
    by (simp add: Let_def render_fields ensureOrderInitialized_def applyOrderToMap_def emit_def
        activeHasData_def)
qed

lemma initLoad_nodata:
  "\<not> activeHasData s \<Longrightarrow>
     layers (snd (initLoad E s)) = layers s \<and> active (snd (initLoad E s)) = active s
     \<and> visible (snd (initLoad E s)) = visible s \<and> loaded (snd (initLoad E s)) = loaded s
     \<and> trace (snd (initLoad E s)) = trace s"
  by (simp add: initLoad_def split: option.splits)

text \<open>
  Claim C5. After \<^verbatim>\<open>init\<close> on a catalog that is not empty: the first layer in
  catalog order whose count is absent or greater than zero is the active layer (and is
  visible); when no layer has data, the first cataloged layer is active, nothing is
  visible, nothing is loaded, and nothing but the count query has gone to the query
  service or the rendering surface.
\<close>

theorem init_picks_first_layer_with_data:
  assumes "loadLayerCatalog rep = Inr ls" and "ls \<noteq> []"
    and "s = snd (init E rep (initial view))"
  shows "layers s \<noteq> []
     \<and> (\<forall>pre l post. layers s = pre @ l # post \<and> hasData l \<and> (\<forall>x\<in>set pre. \<not> hasData x)
           \<longrightarrow> active s = Some l \<and> full l \<in> visible s)
     \<and> ((\<forall>x\<in>set (layers s). \<not> hasData x)
           \<longrightarrow> active s = Some (hd (layers s)) \<and> visible s = {} \<and> loaded s = {}
               \<and> filter isLoadEffect (trace s) = [])"
proof -
  define s1 where "s1 = (initial view)\<lparr>layers := ls\<rparr>"
  define s6 where "s6 = initSelect E s1"
  have s: "s = snd (initLoad E s6)"
    using assms by (simp add: init_def s1_def s6_def)
  have f6: "active s6 = pickActive (layers s6)"
    "visible s6 = (if activeHasData s6 then {full (the (active s6))} else {})"
    "loaded s6 = {}" "filter isLoadEffect (trace s6) = []" "layers s6 \<noteq> []"
    using initSelect_fields[of s1 E] assms(2) by (simp_all add: s1_def s6_def initial_def)
  have es: "engineStep s6 s"
    unfolding s by (rule engineStep_initLoad[of E _ "fst (initLoad E s6)"]) simp
  then have same: "layers s = layers s6" "active s = active s6" "visible s = visible s6"
    by (simp_all add: engineStep_def)
  have first: "\<forall>pre l post. layers s = pre @ l # post \<and> hasData l \<and> (\<forall>x\<in>set pre. \<not> hasData x)
           \<longrightarrow> active s = Some l \<and> full l \<in> visible s"
  proof (intro allI impI)
    fix pre l post
    assume a: "layers s = pre @ l # post \<and> hasData l \<and> (\<forall>x\<in>set pre. \<not> hasData x)"
    then have "List.find hasData (layers s6) = Some l"
      using find_first[of pre hasData l post] same by simp
    then have act: "active s6 = Some l" using f6(1) by (simp add: pickActive_def)
    with a have "activeHasData s6" by (auto simp: activeHasData_iff)
    with act f6(2) show "active s = Some l \<and> full l \<in> visible s" using same by simp
  qed
  have none: "(\<forall>x\<in>set (layers s). \<not> hasData x)
           \<longrightarrow> active s = Some (hd (layers s)) \<and> visible s = {} \<and> loaded s = {}
               \<and> filter isLoadEffect (trace s) = []"
  proof
    assume a: "\<forall>x\<in>set (layers s). \<not> hasData x"
    then have "List.find hasData (layers s6) = None" using same by (simp add: find_None_iff)
    then have act: "active s6 = Some (hd (layers s6))"
      using f6(1,5) by (cases "layers s6") (simp_all add: pickActive_def)
    have "hd (layers s6) \<in> set (layers s6)" using f6(5) by simp
    with a same have "\<not> hasData (hd (layers s6))" by simp
    with act have nd: "\<not> activeHasData s6" by (simp add: activeHasData_iff)
    from initLoad_nodata[OF nd, of E] s f6 act nd
    show "active s = Some (hd (layers s)) \<and> visible s = {} \<and> loaded s = {}
               \<and> filter isLoadEffect (trace s) = []"
      by simp
  qed
  from f6(5) same have ne: "layers s \<noteq> []" by simp
  show ?thesis by (rule conjI[OF ne conjI[OF first none]])
qed

text \<open>The scenario of the specification: \<^verbatim>\<open>a\<close> with 0, \<^verbatim>\<open>b\<close> with 5; \<^verbatim>\<open>b\<close> is chosen.\<close>

theorem init_picks_first_layer_with_data_witness:
  "layers exStarted = [] @ exLayer ''a'' (Some (Num 0)) # exLayer ''b'' (Some (Num 5)) # []
   \<and> \<not> hasData (exLayer ''a'' (Some (Num 0))) \<and> hasData (exLayer ''b'' (Some (Num 5)))
   \<and> active exStarted = Some (exLayer ''b'' (Some (Num 5)))
   \<and> visible exStarted = {''public.b''}"
proof -
  have c: "loadLayerCatalog (Inr exCatalog) = Inr [exLayer ''a'' None, exLayer ''b'' None]"
    by (simp add: ex_defs model_defs)
  have n: "[exLayer ''a'' None, exLayer ''b'' None] \<noteq> []" by simp
  note t = init_picks_first_layer_with_data[OF c n exStarted_def]
  have l: "layers exStarted = [exLayer ''a'' (Some (Num 0))] @ exLayer ''b'' (Some (Num 5)) # []"
    by (simp add: exStarted_fields)
  have h: "hasData (exLayer ''b'' (Some (Num 5)))" "\<not> hasData (exLayer ''a'' (Some (Num 0)))"
    by (simp_all add: hasData_def exLayer_def)
  from t have "layers exStarted = [exLayer ''a'' (Some (Num 0))] @ exLayer ''b'' (Some (Num 5)) # []
       \<and> hasData (exLayer ''b'' (Some (Num 5)))
       \<and> (\<forall>x\<in>set [exLayer ''a'' (Some (Num 0))]. \<not> hasData x)
     \<longrightarrow> active exStarted = Some (exLayer ''b'' (Some (Num 5)))
         \<and> full (exLayer ''b'' (Some (Num 5))) \<in> visible exStarted"
    by blast
  with l h have "active exStarted = Some (exLayer ''b'' (Some (Num 5)))" by simp
  with l h show ?thesis by (simp add: exStarted_fields)
qed

section \<open>The SRID cache\<close>

lemma getLayerSrid_hit: "sridCache s (full l) = Some v \<Longrightarrow> getLayerSrid E l s = (Inr v, s)"
  by (simp add: getLayerSrid_def)

lemma getLayerSrid_stores: "getLayerSrid E l s = (Inr v, s1) \<Longrightarrow> sridCache s1 (full l) = Some v"
  by (auto simp: getLayerSrid_def postJson_def emit_def Let_def split: option.splits sum.splits)

lemma cache_step:
  "e \<noteq> Clear \<Longrightarrow> sridCache s k = Some v \<Longrightarrow> sridCache (step E s e) k = Some v"
  by (cases e)
    (simp_all add: keeps_toggleCheckbox keeps_rowClick keeps_btnReload keeps_moveEndFired
      cache_moveLayer cache_btnRunSql render_fields rowMove_def)

lemma cache_run:
  "Clear \<notin> set es \<Longrightarrow> sridCache s k = Some v \<Longrightarrow> sridCache (run E s es) k = Some v"
proof (induction es arbitrary: s)
  case Nil
  then show ?case by (simp add: run_def)
next
  case (Cons e es)
  then have "e \<noteq> Clear" "Clear \<notin> set es" by auto
  from cache_step[OF this(1) Cons.prems(2)] Cons.IH[OF this(2)]
  show ?case by (simp add: run_def)
qed

lemma srid_kept_after_success:
  assumes "getLayerSrid E l s = (Inr v, s1)" and "Clear \<notin> set es" and "full l' = full l"
  shows "sridCache (run E s1 es) (full l) = Some v
     \<and> getLayerSrid E l' (run E s1 es) = (Inr v, run E s1 es)
     \<and> (\<forall>k w. sridCache s k = Some w \<longrightarrow> sridCache (run E s1 es) k = Some w)"
proof -
  have c: "sridCache (run E s1 es) (full l) = Some v"
    by (rule cache_run[OF assms(2) getLayerSrid_stores[OF assms(1)]])
  have k: "\<forall>k w. sridCache s k = Some w \<longrightarrow> sridCache (run E s1 es) k = Some w"
  proof (intro allI impI)
    fix k w assume "sridCache s k = Some w"
    with engineStep_getLayerSrid[OF assms(1)] have "sridCache s1 k = Some w"
      by (simp add: engineStep_def)
    then show "sridCache (run E s1 es) k = Some w" by (rule cache_run[OF assms(2)])
  qed
  from c assms(3) have "getLayerSrid E l' (run E s1 es) = (Inr v, run E s1 es)"
    by (simp add: getLayerSrid_hit)
  with c k show ?thesis by simp
qed

lemma getLayerSrid_failed:
  assumes "getLayerSrid E l s = (Inl err, s1)"
  shows "sridCache s (full l) = None \<and> remote E (sent s) (sridSQL l) = Inl err
     \<and> sridCache s1 = sridCache s \<and> trace s1 = trace s @ [Query QSrid (sridSQL l)]
     \<and> sent s1 = Suc (sent s)"
  using assms
  by (auto simp: getLayerSrid_def postJson_def emit_def Let_def split: option.splits sum.splits)

lemma getLayerSrid_miss_sends:
  "sridCache s (full l) = None \<Longrightarrow>
     trace (snd (getLayerSrid E l s)) = trace s @ [Query QSrid (sridSQL l)]
     \<and> sent (snd (getLayerSrid E l s)) = Suc (sent s)"
  by (auto simp: getLayerSrid_def postJson_def emit_def Let_def split: option.splits sum.splits)

lemma getLayerSrid_miss_failure:
  "sridCache s (full l) = None \<Longrightarrow> remote E (sent s) (sridSQL l) = Inl err \<Longrightarrow>
     fst (getLayerSrid E l s) = Inl err"
  by (simp add: getLayerSrid_def postJson_def)

text \<open>
  Claim C3, as the code has it. Once a call of \<^verbatim>\<open>getLayerSrid\<close> for a layer has
  succeeded, then after any events other than Clear the cache still holds the value it
  stored, and every further call for that layer identity returns this value and leaves
  the state as it is: no request is sent. No event other than Clear changes an entry
  that the cache already has. Whenever a call fails, the cache had no entry for the
  layer, the request was sent and the service failed it, the cache is left as it was,
  and the next call for that layer identity sends the request again: two requests in
  all. And a call does fail whenever the cache has no entry and the service fails the
  request. Handlers are taken one after the other.
\<close>

theorem srid_cached_after_success_not_after_failure:
  "(getLayerSrid E l s = (Inr v, s1) \<and> Clear \<notin> set es \<and> full l' = full l \<longrightarrow>
      sridCache (run E s1 es) (full l) = Some v
      \<and> getLayerSrid E l' (run E s1 es) = (Inr v, run E s1 es)
      \<and> (\<forall>k w. sridCache s k = Some w \<longrightarrow> sridCache (run E s1 es) k = Some w))
   \<and> (getLayerSrid E l s = (Inl err, s1) \<and> full l' = full l \<longrightarrow>
      sridCache s (full l) = None \<and> remote E (sent s) (sridSQL l) = Inl err
      \<and> sridCache s1 = sridCache s
      \<and> trace s1 = trace s @ [Query QSrid (sridSQL l)] \<and> sent s1 = Suc (sent s)
      \<and> trace (snd (getLayerSrid E l' s1)) = trace s1 @ [Query QSrid (sridSQL l')]
      \<and> sent (snd (getLayerSrid E l' s1)) = Suc (sent s1)
      \<and> sridQueries (snd (getLayerSrid E l' s1)) = sridQueries s + 2)
   \<and> (sridCache s (full l) = None \<and> remote E (sent s) (sridSQL l) = Inl err \<longrightarrow>
      fst (getLayerSrid E l s) = Inl err)"
proof (intro conjI impI)
  assume a: "getLayerSrid E l s = (Inr v, s1) \<and> Clear \<notin> set es \<and> full l' = full l"
  then have g: "getLayerSrid E l s = (Inr v, s1)" and c: "Clear \<notin> set es" and f: "full l' = full l"
    by simp_all
  note t = srid_kept_after_success[OF g c f]
  from t show "sridCache (run E s1 es) (full l) = Some v" by simp
  from t show "getLayerSrid E l' (run E s1 es) = (Inr v, run E s1 es)" by simp
  from t show "\<forall>k w. sridCache s k = Some w \<longrightarrow> sridCache (run E s1 es) k = Some w" by simp
next
  assume a: "getLayerSrid E l s = (Inl err, s1) \<and> full l' = full l"
  then have g: "getLayerSrid E l s = (Inl err, s1)" and f: "full l' = full l" by simp_all
  note t = getLayerSrid_failed[OF g]
  from t have m: "sridCache s1 (full l') = None" using f by simp
  note n = getLayerSrid_miss_sends[OF m, of E]
  from t show "sridCache s (full l) = None" by simp
  from t show "remote E (sent s) (sridSQL l) = Inl err" by simp
  from t show "sridCache s1 = sridCache s" by simp
  from t show "trace s1 = trace s @ [Query QSrid (sridSQL l)]" by simp
  from t show "sent s1 = Suc (sent s)" by simp
  from n show "trace (snd (getLayerSrid E l' s1)) = trace s1 @ [Query QSrid (sridSQL l')]" by simp
  from n show "sent (snd (getLayerSrid E l' s1)) = Suc (sent s1)" by simp
  from n t show "sridQueries (snd (getLayerSrid E l' s1)) = sridQueries s + 2"
    by (simp add: sridQueries_def)
next
  assume "sridCache s (full l) = None \<and> remote E (sent s) (sridSQL l) = Inl err"
  then show "fst (getLayerSrid E l s) = Inl err" by (simp add: getLayerSrid_miss_failure)
qed

text \<open>
  A first lookup for \<^verbatim>\<open>public.a\<close> that finds no SRID in the reply and stores 4326;
  after two events a second call for the same name returns 4326 and changes nothing.
  And a lookup for \<^verbatim>\<open>public.b\<close> against a service that is down: the cache stays
  empty and the second call makes it two requests.
\<close>

theorem srid_cached_after_success_not_after_failure_witness:
  "fst (getLayerSrid (exEnv exRemote) (exLayer ''a'' None) (initial exView)) = Inr (Num 4326)
   \<and> sridCache (run (exEnv exRemote) (snd (getLayerSrid (exEnv exRemote) (exLayer ''a'' None) (initial exView)))
         [Pan exView, Search ''x'']) (full (exLayer ''a'' None)) = Some (Num 4326)
   \<and> getLayerSrid (exEnv exRemote) (exLayer ''a'' (Some (Num 7)))
        (run (exEnv exRemote) (snd (getLayerSrid (exEnv exRemote) (exLayer ''a'' None) (initial exView)))
         [Pan exView, Search ''x''])
      = (Inr (Num 4326),
         run (exEnv exRemote) (snd (getLayerSrid (exEnv exRemote) (exLayer ''a'' None) (initial exView)))
         [Pan exView, Search ''x''])
   \<and> fst (getLayerSrid (exEnv exDown) (exLayer ''b'' None) (initial exView)) = Inl ''down''
   \<and> sridCache (snd (getLayerSrid (exEnv exDown) (exLayer ''b'' None) (initial exView)))
        = sridCache (initial exView)
   \<and> sridQueries (snd (getLayerSrid (exEnv exDown) (exLayer ''b'' (Some (Num 7)))
        (snd (getLayerSrid (exEnv exDown) (exLayer ''b'' None) (initial exView)))))
        = sridQueries (initial exView) + 2"
proof -
  have h1: "getLayerSrid (exEnv exRemote) (exLayer ''a'' None) (initial exView) =
      (Inr (Num 4326), snd (getLayerSrid (exEnv exRemote) (exLayer ''a'' None) (initial exView)))"
    by (simp add: ex_defs getLayerSrid_def postJson_def emit_def initial_def Let_def)
  have h2: "Clear \<notin> set [Pan exView, Search ''x'']" by simp
  have h3: "full (exLayer ''a'' (Some (Num 7))) = full (exLayer ''a'' None)" by (simp add: exLayer_def)
  from h1 have f: "fst (getLayerSrid (exEnv exRemote) (exLayer ''a'' None) (initial exView)) = Inr (Num 4326)"
    by (metis fst_conv)
  have g1: "getLayerSrid (exEnv exDown) (exLayer ''b'' None) (initial exView) =
      (Inl ''down'', snd (getLayerSrid (exEnv exDown) (exLayer ''b'' None) (initial exView)))"
    by (simp add: ex_defs getLayerSrid_def postJson_def emit_def initial_def Let_def)
  have g3: "full (exLayer ''b'' (Some (Num 7))) = full (exLayer ''b'' None)" by (simp add: exLayer_def)
  from g1 have g: "fst (getLayerSrid (exEnv exDown) (exLayer ''b'' None) (initial exView)) = Inl ''down''"
    by (metis fst_conv)
  note s = srid_cached_after_success_not_after_failure[THEN conjunct1, rule_format, OF conjI[OF h1 conjI[OF h2 h3]]]
  note d = srid_cached_after_success_not_after_failure[THEN conjunct2, THEN conjunct1, rule_format,
      OF conjI[OF g1 g3]]
  from s d f g show ?thesis by (intro conjI) simp_all
qed

text \<open>
  Claim C3 as stated (at most one lookup per layer, however often the function is
  called) fails when the lookup fails: nothing is cached, and the second call sends the
  same query again.
\<close>

theorem srid_lookup_repeats_after_failure:
  "fst (getLayerSrid (exEnv exDown) (exLayer ''a'' None) (initial exView)) = Inl ''down''
   \<and> filter isSridQuery (trace (snd (getLayerSrid (exEnv exDown) (exLayer ''a'' None)
        (snd (getLayerSrid (exEnv exDown) (exLayer ''a'' None) (initial exView)))))) =
      [Query QSrid (sridSQL (exLayer ''a'' None)), Query QSrid (sridSQL (exLayer ''a'' None))]
   \<and> \<not> sridQueries (snd (getLayerSrid (exEnv exDown) (exLayer ''a'' None)
        (snd (getLayerSrid (exEnv exDown) (exLayer ''a'' None) (initial exView))))) \<le> 1"
  by (simp add: exEnv_def exDown_def getLayerSrid_def postJson_def emit_def initial_def sridQueries_def)

section \<open>The extent of a layer\<close>

lemma extentSQL_trimmed:
  "extentSQL l srid =
       ''SELECT'' @ nl @
       ''          ST_XMin(e) AS west,'' @ nl @
       ''          ST_YMin(e) AS south,'' @ nl @
       ''          ST_XMax(e) AS east,'' @ nl @
       ''          ST_YMax(e) AS north'' @ nl @
       ''        FROM ('' @ nl @
       ''          SELECT ST_Extent('' @ geomExpr l srid @ '')::box2d AS e'' @ nl @
       ''          FROM '' @ full l @ nl @
       ''          WHERE '' @ geomCol l @ '' IS NOT NULL'' @ nl @
       ''        ) q;''"
  (is "_ = ?b")
proof -
  have e: "extentSQL l srid = trim ((nl @ ''        '') @ ?b @ (nl @ ''      ''))"
    by (simp add: extentSQL_def)
  show ?thesis
    unfolding e by (rule trim_pad) (auto simp: nl_def isSpace_def)
qed

text \<open>
  Claim C4, as the code has it. When the SRID is resolved and the extent request
  succeeds, \<^verbatim>\<open>getLayerExtent4326\<close> returns the first row of the reply as it is, and
  \<^verbatim>\<open>null\<close> exactly when the reply has no first row. Whether the row is an extent is
  the callers' test: its \<^verbatim>\<open>west\<close> must not be \<^verbatim>\<open>null\<close>. The query asks for the four
  bounds of \<^verbatim>\<open>ST_Extent\<close> over the geometries that are not null, transformed to 4326
  exactly when the SRID of the layer is not 4326.
\<close>

theorem extent_is_first_row_of_reply:
  assumes "getLayerSrid E l s = (Inr srid, s1)"
    and "remote E (sent s1) (extentSQL l srid) = Inr data"
  shows "fst (getLayerExtent4326 E l s) = Inr (firstRow data)
     \<and> (fst (getLayerExtent4326 E l s) = Inr None) = (firstRow data = None)
     \<and> extentUsable (firstRow data) = (\<exists>r. firstRow data = Some r \<and> \<not> isNullish (r ''west''))
     \<and> extentSQL l srid =
       ''SELECT'' @ nl @
       ''          ST_XMin(e) AS west,'' @ nl @
       ''          ST_YMin(e) AS south,'' @ nl @
       ''          ST_XMax(e) AS east,'' @ nl @
       ''          ST_YMax(e) AS north'' @ nl @
       ''        FROM ('' @ nl @
       ''          SELECT ST_Extent('' @ geomExpr l srid @ '')::box2d AS e'' @ nl @
       ''          FROM '' @ full l @ nl @
       ''          WHERE '' @ geomCol l @ '' IS NOT NULL'' @ nl @
       ''        ) q;''
     \<and> (geomExpr l srid = ''ST_Transform('' @ geomCol l @ '', 4326)'') = (srid \<noteq> Num 4326)"
proof (intro conjI)
  show r: "fst (getLayerExtent4326 E l s) = Inr (firstRow data)"
    using assms by (simp add: getLayerExtent4326_def postJson_def)
  show "(fst (getLayerExtent4326 E l s) = Inr None) = (firstRow data = None)"
    unfolding r by auto
  show "extentUsable (firstRow data) = (\<exists>r. firstRow data = Some r \<and> \<not> isNullish (r ''west''))"
    by (simp add: extentUsable_def split: option.splits)
  show "(geomExpr l srid = ''ST_Transform('' @ geomCol l @ '', 4326)'') = (srid \<noteq> Num 4326)"
    by (rule geomExpr_iff)
qed (rule extentSQL_trimmed)

text \<open>A reply with one row of four numbers: that row is returned, and the callers accept it.\<close>

theorem extent_is_first_row_of_reply_witness:
  "fst (getLayerExtent4326 (exEnv exExtents) (exLayer ''a'' None) (initial exView)) = Inr (Some exExtent)
   \<and> extentUsable (Some exExtent)"
proof -
  have h1: "getLayerSrid (exEnv exExtents) (exLayer ''a'' None) (initial exView) =
      (Inr (Num 4326), snd (getLayerSrid (exEnv exExtents) (exLayer ''a'' None) (initial exView)))"
    by (simp add: ex_defs getLayerSrid_def postJson_def emit_def initial_def Let_def)
  have h2: "remote (exEnv exExtents)
      (sent (snd (getLayerSrid (exEnv exExtents) (exLayer ''a'' None) (initial exView))))
      (extentSQL (exLayer ''a'' None) (Num 4326)) = Inr (Some [Some exExtent])"
    by (simp add: exEnv_def exExtents_def)
  from extent_is_first_row_of_reply[OF h1 h2]
  show ?thesis by (simp add: exExtent_def)
qed

text \<open>
  Claim C4 as stated (none for a layer without geometries) fails on the reply such a
  layer gives: the aggregate yields one row whose four values are \<^verbatim>\<open>null\<close>, and the
  function returns that row, not \<^verbatim>\<open>null\<close>. The callers then reject it.
\<close>

theorem extent_of_empty_layer_is_a_row:
  "fst (getLayerExtent4326 (exEnv exNulls) (exLayer ''a'' None) (initial exView)) = Inr (Some exNullExtent)
   \<and> fst (getLayerExtent4326 (exEnv exNulls) (exLayer ''a'' None) (initial exView)) \<noteq> Inr None
   \<and> \<not> extentUsable (Some exNullExtent)"
  by (simp add: exEnv_def exNulls_def exNullExtent_def exLayer_def getLayerExtent4326_def
      getLayerSrid_def postJson_def emit_def initial_def Let_def extentUsable_def)

section \<open>The extent fallback runs at most once\<close>

lemmas count_defs = viewportQueries_def extentQueries_def fitCalls_def

lemma count_getLayerSrid:
  "getLayerSrid E l s = (r, s') \<Longrightarrow>
     viewportQueries s' = viewportQueries s \<and> extentQueries s' = extentQueries s
     \<and> fitCalls s' = fitCalls s \<and> featureCount s' = featureCount s"
  by (auto simp: getLayerSrid_def postJson_def emit_def Let_def count_defs
      split: option.splits sum.splits)

lemma count_loadLayerInViewport:
  assumes "loadLayerInViewport E l u s = (r, s')"
  shows "extentQueries s' = extentQueries s \<and> fitCalls s' = fitCalls s
     \<and> viewportQueries s' \<le> viewportQueries s + 1
     \<and> (sridCache s (full l) \<noteq> None \<longrightarrow> viewportQueries s' = viewportQueries s + 1)
     \<and> (\<forall>fc. r = Inr fc \<longrightarrow> viewportQueries s' = viewportQueries s + 1
            \<and> sridCache s' (full l) \<noteq> None \<and> (u \<longrightarrow> featureCount s' = length fc))"
proof -
  obtain r1 s1 where g: "getLayerSrid E l s = (r1, s1)" by (cases "getLayerSrid E l s")
  note c = count_getLayerSrid[OF g]
  show ?thesis
  proof (cases r1)
    case (Inl err)
    then have "s' = s1" "r = Inl err" using assms g by (simp_all add: loadLayerInViewport_def)
    moreover have "sridCache s (full l) = None"
      using g Inl by (auto simp: getLayerSrid_def split: option.splits)
    ultimately show ?thesis using c by simp
  next
    case (Inr srid)
    then have st: "sridCache s1 (full l) = Some srid" using g by (simp add: getLayerSrid_stores)
    from assms g Inr c st show ?thesis
      by (auto simp: loadLayerInViewport_def Let_def postJson_def emit_def applyOrderToMap_def
          count_defs split: sum.splits)
  qed
qed

lemma count_getLayerExtent4326:
  "getLayerExtent4326 E l s = (r, s') \<Longrightarrow>
     viewportQueries s' = viewportQueries s \<and> fitCalls s' = fitCalls s
     \<and> extentQueries s' \<le> extentQueries s + 1
     \<and> (\<forall>x. r = Inr x \<longrightarrow> extentQueries s' = extentQueries s + 1)"
  by (auto simp: getLayerExtent4326_def postJson_def emit_def count_defs
      split: prod.splits sum.splits dest!: count_getLayerSrid)

lemma count_fitBounds4326:
  "viewportQueries (fitBounds4326 E x s) = viewportQueries s
   \<and> extentQueries (fitBounds4326 E x s) = extentQueries s
   \<and> fitCalls (fitBounds4326 E x s) = fitCalls s + 1
   \<and> sridCache (fitBounds4326 E x s) = sridCache s
   \<and> active (fitBounds4326 E x s) = active s \<and> visible (fitBounds4326 E x s) = visible s"
  by (simp add: fitBounds4326_def Let_def emit_def count_defs)

lemma count_runActiveViewportLoad:
  assumes "runActiveViewportLoad E s = (r, s')"
  shows "extentQueries s' = extentQueries s \<and> fitCalls s' = fitCalls s
     \<and> viewportQueries s' \<le> viewportQueries s + 1
     \<and> (\<forall>a. active s = Some a \<and> full a \<in> visible s \<and> sridCache s (full a) \<noteq> None
            \<longrightarrow> viewportQueries s' = viewportQueries s + 1)
     \<and> (\<forall>a fc. active s = Some a \<and> full a \<in> visible s \<and> r = Inr fc
            \<longrightarrow> viewportQueries s' = viewportQueries s + 1 \<and> sridCache s' (full a) \<noteq> None)"
  using assms
  by (auto simp: runActiveViewportLoad_def split: option.splits if_splits prod.splits sum.splits
      dest!: count_loadLayerInViewport)

lemma fallback_rowClickTry_fresh:
  assumes "rowClickTry E l s = (r, s')" "full l \<notin> loaded s"
  shows "fallbackBound s s'"
proof -
  obtain r1 s1 where l1: "loadLayerInViewport E l True s = (r1, s1)"
    by (cases "loadLayerInViewport E l True s")
  note c1 = count_loadLayerInViewport[OF l1]
  show ?thesis
  proof (cases r1)
    case (Inl err)
    then have "s' = s1" using assms l1 by (simp add: rowClickTry_def)
    with c1 show ?thesis by (simp add: fallbackBound_def)
  next
    case (Inr fc)
    with c1 have v1: "viewportQueries s1 = viewportQueries s + 1" and k1: "sridCache s1 (full l) \<noteq> None"
      by simp_all
    show ?thesis
    proof (cases "featureCount s1 = 0")
      case False
      then have "s' = s1" using assms l1 Inr by (simp add: rowClickTry_def Let_def)
      with c1 v1 show ?thesis by (simp add: fallbackBound_def)
    next
      case True
      obtain r2 s2 where e2: "getLayerExtent4326 E l s1 = (r2, s2)"
        by (cases "getLayerExtent4326 E l s1")
      note c2 = count_getLayerExtent4326[OF e2]
      from engineStep_getLayerExtent4326[OF e2] k1 have k2: "sridCache s2 (full l) \<noteq> None"
        by (auto simp: engineStep_def)
      show ?thesis
      proof (cases r2)
        case (Inl err)
        then have "s' = s2" using assms l1 Inr True e2 by (simp add: rowClickTry_def Let_def)
        with c1 c2 v1 show ?thesis by (simp add: fallbackBound_def)
      next
        case ext: (Inr ext)
        show ?thesis
        proof (cases "extentUsable ext")
          case False
          then have "s' = s2" using assms l1 Inr True e2 ext by (simp add: rowClickTry_def Let_def)
          with c1 c2 v1 ext show ?thesis by (simp add: fallbackBound_def)
        next
          case u: True
          define s3 where "s3 = fitBounds4326 E (the ext) s2"
          obtain r4 s4 where l4: "loadLayerInViewport E l True s3 = (r4, s4)"
            by (cases "loadLayerInViewport E l True s3")
          note c3 = count_fitBounds4326[of E "the ext" s2]
          note c4 = count_loadLayerInViewport[OF l4]
          have "s' = s4" using assms l1 Inr True e2 ext u l4
            by (cases r4; simp add: rowClickTry_def Let_def s3_def)
          moreover have "viewportQueries s4 = viewportQueries s3 + 1"
            using c4 c3 k2 by (simp add: s3_def)
          ultimately show ?thesis using c1 c2 c3 c4 v1 ext
            by (simp add: fallbackBound_def s3_def)
        qed
      qed
    qed
  qed
qed


lemma fallbackBound_refl: "fallbackBound s s"
  by (simp add: fallbackBound_def)

lemma fallbackBound_counts:
  "viewportQueries t = viewportQueries s \<Longrightarrow> extentQueries t = extentQueries s \<Longrightarrow>
   fitCalls t = fitCalls s \<Longrightarrow> fallbackBound t u = fallbackBound s u"
  by (simp add: fallbackBound_def)

lemma fallbackBound_counts2:
  "viewportQueries u = viewportQueries t \<Longrightarrow> extentQueries u = extentQueries t \<Longrightarrow>
   fitCalls u = fitCalls t \<Longrightarrow> fallbackBound s u = fallbackBound s t"
  by (simp add: fallbackBound_def)

lemma fallback_rowClickTry_loaded:
  assumes t: "rowClickTry E l s = (r, s')" and ld: "full l \<in> loaded s"
    and act: "active s = Some l" and vis: "full l \<in> visible s"
  shows "fallbackBound s s'"
proof -
  define s0 where "s0 = emit (SetLayerVisible (full l) True) s"
  have c0: "viewportQueries s0 = viewportQueries s" "extentQueries s0 = extentQueries s"
    "fitCalls s0 = fitCalls s" "active s0 = Some l" "full l \<in> visible s0"
    using act vis by (simp_all add: s0_def emit_def count_defs)
  obtain r1 s1 where l1: "runActiveViewportLoad E s0 = (r1, s1)"
    by (cases "runActiveViewportLoad E s0")
  note c1 = count_runActiveViewportLoad[OF l1]
  note e1 = engineStep_runActiveViewportLoad[OF l1]
  show ?thesis
  proof (cases r1)
    case (Inl err)
    then have "s' = s1" using t ld l1 by (simp add: rowClickTry_def Let_def s0_def)
    with c1 c0 show ?thesis by (simp add: fallbackBound_def)
  next
    case (Inr fc)
    with c1 c0 have v1: "viewportQueries s1 = viewportQueries s + 1" and k1: "sridCache s1 (full l) \<noteq> None"
      by simp_all
    show ?thesis
    proof (cases "case fc of None \<Rightarrow> True | Some fs \<Rightarrow> fs = []")
      case False
      then have "s' = s1" using t ld l1 Inr by (simp add: rowClickTry_def Let_def s0_def)
      with c1 c0 v1 show ?thesis by (simp add: fallbackBound_def)
    next
      case True
      obtain r2 s2 where e2: "getLayerExtent4326 E l s1 = (r2, s2)"
        by (cases "getLayerExtent4326 E l s1")
      note c2 = count_getLayerExtent4326[OF e2]
      note g2 = engineStep_getLayerExtent4326[OF e2]
      from g2 e1 k1 c0 have k2: "sridCache s2 (full l) \<noteq> None" "active s2 = Some l" "full l \<in> visible s2"
        by (auto simp: engineStep_def)
      show ?thesis
      proof (cases r2)
        case (Inl err)
        then have "s' = s2" using t ld l1 Inr True e2 by (simp add: rowClickTry_def Let_def s0_def)
        with c0 c1 c2 v1 show ?thesis by (simp add: fallbackBound_def)
      next
        case ext: (Inr ext)
        show ?thesis
        proof (cases "extentUsable ext")
          case False
          then have "s' = s2" using t ld l1 Inr True e2 ext by (simp add: rowClickTry_def Let_def s0_def)
          with c0 c1 c2 v1 ext show ?thesis by (simp add: fallbackBound_def)
        next
          case u: True
          define s3 where "s3 = fitBounds4326 E (the ext) s2"
          obtain r4 s4 where l4: "runActiveViewportLoad E s3 = (r4, s4)"
            by (cases "runActiveViewportLoad E s3")
          note c3 = count_fitBounds4326[of E "the ext" s2]
          note c4 = count_runActiveViewportLoad[OF l4]
          have "s' = s4" using t ld l1 Inr True e2 ext u l4
            by (cases r4; simp add: rowClickTry_def Let_def s0_def s3_def)
          moreover have "viewportQueries s4 = viewportQueries s3 + 1"
            using c4 c3 k2 by (simp add: s3_def)
          ultimately show ?thesis using c0 c1 c2 c3 c4 v1 ext
            by (simp add: fallbackBound_def s3_def)
        qed
      qed
    qed
  qed
qed

lemma fallback_rowClick: "fallbackBound s (rowClick E i s)"
proof (cases "i < length (rows s)")
  case False
  then show ?thesis by (simp add: rowClick_def fallbackBound_refl)
next
  case n: True
  define l where "l = r_layer (rows s ! i)"
  define s1 where "s1 = renderLayerList (layerSearch s) (s\<lparr>active := Some l\<rparr>)"
  have c1: "viewportQueries s1 = viewportQueries s" "extentQueries s1 = extentQueries s"
    "fitCalls s1 = fitCalls s"
    by (simp_all add: s1_def count_defs render_fields)
  show ?thesis
  proof (cases "r_emptyGeom (rows s ! i)")
    case True
    then have "rowClick E i s = s1\<lparr>activeLayerLabel := full l, featureCount := 0, srcBadge := ''viewport''\<rparr>"
      using n by (simp add: rowClick_def Let_def l_def s1_def)
    then show ?thesis using c1 by (simp add: fallbackBound_def count_defs)
  next
    case False
    define s2 where "s2 = s1\<lparr>visible := insert (full l) (visible s1)\<rparr>"
    have c2: "viewportQueries s2 = viewportQueries s" "extentQueries s2 = extentQueries s"
      "fitCalls s2 = fitCalls s" "active s2 = Some l" "full l \<in> visible s2"
      using c1 by (simp_all add: s2_def s1_def count_defs render_fields)
    obtain r s3 where t: "rowClickTry E l s2 = (r, s3)" by (cases "rowClickTry E l s2")
    have "fallbackBound s2 s3"
      using fallback_rowClickTry_fresh[OF t] fallback_rowClickTry_loaded[OF t _ c2(4,5)] by blast
    then have b: "fallbackBound s s3" using c2 by (simp add: fallbackBound_def)
    have "rowClick E i s = (case r of Inl err \<Rightarrow> alert err s3 | Inr u \<Rightarrow> s3)"
      using n False t by (simp add: rowClick_def Let_def l_def s1_def s2_def)
    then show ?thesis using b
      by (cases r) (simp_all add: fallbackBound_def alert_def emit_def count_defs)
  qed
qed

lemma fallback_initLoad: "fallbackBound s (snd (initLoad E s))"
proof (cases "activeHasData s")
  case False
  then show ?thesis
    by (simp add: initLoad_def fallbackBound_def count_defs split: option.splits)
next
  case ahd: True
  define a where "a = the (active s)"
  obtain r1 s1 where l1: "loadLayerInViewport E a True s = (r1, s1)"
    by (cases "loadLayerInViewport E a True s")
  note c1 = count_loadLayerInViewport[OF l1]
  note e1 = engineStep_loadLayerInViewport[OF l1]
  show ?thesis
  proof (cases r1)
    case (Inl err)
    then have "snd (initLoad E s) = s1" using ahd l1 by (simp add: initLoad_def a_def)
    with c1 show ?thesis by (simp add: fallbackBound_def)
  next
    case (Inr fc)
    with c1 have v1: "viewportQueries s1 = viewportQueries s + 1" and k1: "sridCache s1 (full a) \<noteq> None"
      by simp_all
    have a1: "the (active s1) = a" using e1 by (simp add: engineStep_def a_def)
    show ?thesis
    proof (cases "fc = []")
      case False
      then have "snd (initLoad E s) = s1" using ahd l1 Inr by (simp add: initLoad_def a_def)
      with c1 v1 show ?thesis by (simp add: fallbackBound_def)
    next
      case True
      obtain r2 s2 where e2: "getLayerExtent4326 E a s1 = (r2, s2)"
        by (cases "getLayerExtent4326 E a s1")
      note c2 = count_getLayerExtent4326[OF e2]
      note g2 = engineStep_getLayerExtent4326[OF e2]
      from g2 k1 a1 have k2: "sridCache s2 (full a) \<noteq> None" "the (active s2) = a"
        by (auto simp: engineStep_def)
      show ?thesis
      proof (cases r2)
        case (Inl err)
        then have "snd (initLoad E s) = s2" using ahd l1 Inr True e2 a1
          by (simp add: initLoad_def a_def)
        with c1 c2 v1 show ?thesis by (simp add: fallbackBound_def)
      next
        case ext: (Inr ext)
        show ?thesis
        proof (cases "extentUsable ext")
          case False
          then have "snd (initLoad E s) = s2" using ahd l1 Inr True e2 ext a1
            by (simp add: initLoad_def a_def)
          with c1 c2 v1 ext show ?thesis by (simp add: fallbackBound_def)
        next
          case u: True
          define s3 where "s3 = fitBounds4326 E (the ext) s2"
          note c3 = count_fitBounds4326[of E "the ext" s2]
          have a3: "the (active s3) = a" using k2 c3 by (simp add: s3_def)
          obtain r4 s4 where l4: "loadLayerInViewport E a True s3 = (r4, s4)"
            by (cases "loadLayerInViewport E a True s3")
          note c4 = count_loadLayerInViewport[OF l4]
          have "snd (initLoad E s) = s4" using ahd l1 Inr True e2 ext u l4 a1 a3
            by (cases r4; simp add: initLoad_def Let_def a_def s3_def)
          moreover have "viewportQueries s4 = viewportQueries s3 + 1"
            using c4 c3 k2 by (simp add: s3_def)
          ultimately show ?thesis using c1 c2 c3 c4 v1 ext
            by (simp add: fallbackBound_def s3_def)
        qed
      qed
    qed
  qed
qed

lemma count_hydrate:
  "hydrateGeomCounts E ls s = (r, s') \<Longrightarrow>
     viewportQueries s' = viewportQueries s \<and> extentQueries s' = extentQueries s
     \<and> fitCalls s' = fitCalls s"
  by (auto simp: hydrateGeomCounts_def Let_def postJson_def emit_def count_defs
      split: if_splits prod.splits sum.splits)

lemma count_initSelect:
  "viewportQueries (initSelect E s) = viewportQueries s
   \<and> extentQueries (initSelect E s) = extentQueries s \<and> fitCalls (initSelect E s) = fitCalls s"
proof -
  obtain r t where h: "hydrateGeomCounts E (layers s) s = (r, t)"
    by (cases "hydrateGeomCounts E (layers s) s")
  from count_hydrate[OF h] h show ?thesis
    by (cases r)
      (simp_all add: initSelect_def Let_def render_fields ensureOrderInitialized_def
        applyOrderToMap_def emit_def count_defs)
qed

lemma fallback_init: "fallbackBound s (snd (init E rep s))"
proof (cases "loadLayerCatalog rep")
  case (Inl err)
  then show ?thesis by (simp add: init_def fallbackBound_refl)
next
  case (Inr ls)
  show ?thesis
  proof (cases "ls = []")
    case True
    then show ?thesis using Inr by (simp add: init_def fallbackBound_def count_defs)
  next
    case False
    define s1 where "s1 = s\<lparr>layers := ls\<rparr>"
    have "fallbackBound (initSelect E s1) (snd (initLoad E (initSelect E s1)))"
      by (rule fallback_initLoad)
    then have "fallbackBound s (snd (initLoad E (initSelect E s1)))"
      using count_initSelect[of E s1] by (simp add: fallbackBound_def s1_def count_defs)
    then show ?thesis using Inr False by (simp add: init_def s1_def)
  qed
qed


lemma exStarted_counts:
  "viewportQueries exStarted = 2" "extentQueries exStarted = 1" "fitCalls exStarted = 1"
  "viewportQueries (initial exView) = 0" "extentQueries (initial exView) = 0"
  "fitCalls (initial exView) = 0"
  by (simp_all add: exStarted_def ex_defs model_defs Let_def count_defs)

lemma firstRequest_append:
  "firstRequest k n (d1 @ d2) =
     (case firstRequest k n d1 of
        Some x \<Rightarrow> Some x
      | None \<Rightarrow> firstRequest k (n + length (filter isQuery d1)) d2)"
proof (induction d1 arbitrary: n)
  case Nil
  then show ?case by simp
next
  case (Cons e d1)
  then show ?case by (cases e) (auto split: option.splits)
qed

lemma firstRequest_quiet:
  "\<forall>e\<in>set d. quiet e \<Longrightarrow> firstRequest QExtent n d = None \<and> firstRequest QViewport n d = None"
proof (induction d arbitrary: n)
  case Nil
  then show ?case by simp
next
  case (Cons e d)
  then show ?case by (cases e) (auto simp: quiet_def)
qed

lemma filter_isFit_quiet: "\<forall>e\<in>set d. quiet e \<Longrightarrow> filter isFit d = []"
  by (induction d) (auto simp: quiet_def)

lemma fallbackSpec_quiet: "\<forall>e\<in>set d. quiet e \<Longrightarrow> fallbackSpec E n d"
  by (simp add: fallbackSpec_def firstRequest_quiet filter_isFit_quiet)

lemma fallbackSpec_prefix:
  "\<forall>e\<in>set d0. quiet e \<Longrightarrow> fallbackSpec E (n + length (filter isQuery d0)) d \<Longrightarrow>
     fallbackSpec E n (d0 @ d)"
  by (simp add: fallbackSpec_def firstRequest_append firstRequest_quiet filter_isFit_quiet)

lemma fallbackSpec_suffix:
  assumes "\<forall>e\<in>set dz. quiet e" "fallbackSpec E n d"
  shows "fallbackSpec E n (d @ dz)"
proof -
  have "firstRequest QExtent n (d @ dz) = firstRequest QExtent n d"
    "firstRequest QViewport n (d @ dz) = firstRequest QViewport n d"
    using assms(1) by (simp_all add: firstRequest_append firstRequest_quiet split: option.splits)
  with assms show ?thesis by (simp add: fallbackSpec_def filter_isFit_quiet)
qed

lemma delta_refl: "delta s [] s"
  by (simp add: delta_def)

lemma delta_trans: "delta s d1 t \<Longrightarrow> delta t d2 u \<Longrightarrow> delta s (d1 @ d2) u"
  by (simp add: delta_def)

lemma delta_since: "delta s d s' \<Longrightarrow> since s s' = d"
  by (simp add: delta_def since_def)


lemma isNullish_iff: "isNullish x = (x = None \<or> x = Some JNull)"
  by (cases x rule: isNullish.cases) simp_all

lemma srid_delta:
  "getLayerSrid E l s = (r, s1) \<Longrightarrow>
     \<exists>d. delta s d s1 \<and> (\<forall>e\<in>set d. quiet e) \<and> bounds s1 = bounds s"
  by (auto simp: getLayerSrid_def postJson_def emit_def Let_def delta_def quiet_def
      split: option.splits sum.splits)

lemma load_delta:
  assumes "loadLayerInViewport E l u s = (r, s')"
  shows "\<exists>d. delta s d s' \<and> filter isFit d = [] \<and> (\<forall>n. firstRequest QExtent n d = None)
     \<and> (case r of
          Inl err \<Rightarrow>
            (case firstRequest QViewport (sent s) d of
               None \<Rightarrow> True
             | Some (m, q) \<Rightarrow> remote E m q = Inl err)
        | Inr fc \<Rightarrow>
            (\<exists>m q data. firstRequest QViewport (sent s) d = Some (m, q) \<and> remote E m q = Inr data
               \<and> fc = rowsToFeatureCollection E (rowsOf data)))"
proof -
  obtain r1 s1 where g: "getLayerSrid E l s = (r1, s1)" by (cases "getLayerSrid E l s")
  from srid_delta[OF g] obtain d0 where d0: "delta s d0 s1" "\<forall>e\<in>set d0. quiet e" by blast
  note q0 = firstRequest_quiet[OF d0(2)] filter_isFit_quiet[OF d0(2)]
  have n1: "sent s1 = sent s + length (filter isQuery d0)" using d0(1) by (simp add: delta_def)
  show ?thesis
  proof (cases r1)
    case (Inl err)
    then have "r = Inl err" "s' = s1" using assms g by (simp_all add: loadLayerInViewport_def)
    with d0 q0 show ?thesis by (intro exI[of _ d0]) simp
  next
    case (Inr srid)
    define q where "q = buildViewportSQL E l (bounds s) srid 600"
    show ?thesis
    proof (cases "remote E (sent s1) q")
      case (Inl err)
      then have "r = Inl err" "delta s1 [Query QViewport q] s'"
        using assms g Inr
        by (auto simp: loadLayerInViewport_def Let_def postJson_def emit_def delta_def q_def)
      with d0 have "delta s (d0 @ [Query QViewport q]) s'" by (blast intro: delta_trans)
      moreover have "firstRequest QViewport (sent s) (d0 @ [Query QViewport q]) = Some (sent s1, q)"
        by (simp add: firstRequest_append q0 n1)
      ultimately show ?thesis using Inl \<open>r = Inl err\<close> q0
        by (intro exI[of _ "d0 @ [Query QViewport q]"]) (simp add: firstRequest_append)
    next
      case rem: (Inr data)
      define fc where "fc = rowsToFeatureCollection E (rowsOf data)"
      define dv where "dv = [Query QViewport q, SetFeatures (full l) fc,
          SetLayerVisible (full l) (full l \<in> visible s1), ApplyOrder (order s1)]"
      have "r = Inr fc" "delta s1 dv s'"
        using assms g Inr rem
        by (auto simp: loadLayerInViewport_def Let_def postJson_def emit_def applyOrderToMap_def
            delta_def q_def fc_def dv_def)
      with d0 have "delta s (d0 @ dv) s'" by (blast intro: delta_trans)
      moreover have "firstRequest QViewport (sent s) (d0 @ dv) = Some (sent s1, q)"
        by (simp add: firstRequest_append q0 n1 dv_def)
      moreover have "filter isFit (d0 @ dv) = []" "\<forall>n. firstRequest QExtent n (d0 @ dv) = None"
        by (simp_all add: firstRequest_append q0 dv_def)
      ultimately show ?thesis using rem \<open>r = Inr fc\<close>
        by (intro exI[of _ "d0 @ dv"]) (simp add: fc_def)
    qed
  qed
qed

lemma extent_hit:
  assumes "sridCache s (full l) = Some srid" "getLayerExtent4326 E l s = (r, s')"
  shows "delta s [Query QExtent (extentSQL l srid)] s'
     \<and> r = (case remote E (sent s) (extentSQL l srid) of
              Inl err \<Rightarrow> Inl err
            | Inr data \<Rightarrow> Inr (firstRow data))"
  using assms
  by (auto simp: getLayerExtent4326_def getLayerSrid_def postJson_def emit_def delta_def
      split: sum.splits)

lemma fit_delta: "delta s [FitBounds ext] (fitBounds4326 E ext s)"
  by (simp add: fitBounds4326_def Let_def emit_def delta_def)


lemma fallbackOf_spec: "\<exists>d. delta s d (fallbackOf E l s) \<and> fallbackSpec E (sent s) d"
proof -
  obtain r1 s1 where l1: "loadLayerInViewport E l True s = (r1, s1)"
    by (cases "loadLayerInViewport E l True s")
  from load_delta[OF l1] obtain d1 where d1: "delta s d1 s1" "filter isFit d1 = []"
    "\<forall>n. firstRequest QExtent n d1 = None"
    and c1: "case r1 of
          Inl err \<Rightarrow>
            (case firstRequest QViewport (sent s) d1 of
               None \<Rightarrow> True
             | Some (m, q) \<Rightarrow> remote E m q = Inl err)
        | Inr fc \<Rightarrow>
            (\<exists>m q data. firstRequest QViewport (sent s) d1 = Some (m, q) \<and> remote E m q = Inr data
               \<and> fc = rowsToFeatureCollection E (rowsOf data))"
    by blast
  have n1: "sent s1 = sent s + length (filter isQuery d1)" using d1(1) by (simp add: delta_def)
  show ?thesis
  proof (cases r1)
    case (Inl err)
    then have f: "fallbackOf E l s = s1" using l1 by (simp add: fallbackOf_def)
    have "fallbackSpec E (sent s) d1"
      using c1 Inl d1 by (auto simp: fallbackSpec_def split: option.splits)
    with d1(1) f show ?thesis by auto
  next
    case (Inr fc)
    with c1 obtain m q data where v1: "firstRequest QViewport (sent s) d1 = Some (m, q)"
      "remote E m q = Inr data" "fc = rowsToFeatureCollection E (rowsOf data)"
      by auto
    show ?thesis
    proof (cases "fc = []")
      case False
      then have f: "fallbackOf E l s = s1" using l1 Inr by (simp add: fallbackOf_def)
      have "fallbackSpec E (sent s) d1"
        using v1 False d1 by (simp add: fallbackSpec_def)
      with d1(1) f show ?thesis by auto
    next
      case True
      from count_loadLayerInViewport[OF l1] Inr obtain srid where k1: "sridCache s1 (full l) = Some srid"
        by auto
      define qx where "qx = extentSQL l srid"
      obtain r2 s2 where e2: "getLayerExtent4326 E l s1 = (r2, s2)"
        by (cases "getLayerExtent4326 E l s1")
      from extent_hit[OF k1 e2] have d2: "delta s1 [Query QExtent qx] s2"
        and r2: "r2 = (case remote E (sent s1) qx of Inl err \<Rightarrow> Inl err | Inr data \<Rightarrow> Inr (firstRow data))"
        by (simp_all add: qx_def)
      have d12: "delta s (d1 @ [Query QExtent qx]) s2" by (rule delta_trans[OF d1(1) d2])
      have x12: "\<And>rest. firstRequest QExtent (sent s) (d1 @ Query QExtent qx # rest) = Some (sent s1, qx)"
        by (simp add: firstRequest_append d1 n1)
      have w12: "\<And>rest. firstRequest QViewport (sent s) (d1 @ rest) = Some (m, q)"
        by (simp add: firstRequest_append v1)
      have trig: "\<exists>m q data. firstRequest QViewport (sent s) d1 = Some (m, q) \<and> remote E m q = Inr data
             \<and> rowsToFeatureCollection E (rowsOf data) = []"
        using v1 True by auto
      show ?thesis
      proof (cases "remote E (sent s1) qx")
        case (Inl err)
        then have f: "fallbackOf E l s = s2" using l1 Inr True e2 r2 by (simp add: fallbackOf_def)
        have "fallbackSpec E (sent s) (d1 @ [Query QExtent qx])"
          using Inl d1 x12[of "[]"] w12[of "[Query QExtent qx]"] v1 True
          by (simp add: fallbackSpec_def)
        with d12 f show ?thesis by auto
      next
        case rem: (Inr data2)
        then have r2': "r2 = Inr (firstRow data2)" using r2 by simp
        show ?thesis
        proof (cases "extentUsable (firstRow data2)")
          case False
          then have f: "fallbackOf E l s = s2" using l1 Inr True e2 r2' by (simp add: fallbackOf_def)
          have "fallbackSpec E (sent s) (d1 @ [Query QExtent qx])"
            using rem False d1 x12[of "[]"] w12[of "[Query QExtent qx]"] v1 True
            by (auto simp: fallbackSpec_def extentUsable_def isNullish_iff split: option.splits)
          with d12 f show ?thesis by auto
        next
          case u: True
          then obtain rw where rw: "firstRow data2 = Some rw" "\<not> (rw ''west'' = None \<or> rw ''west'' = Some JNull)"
            by (auto simp: extentUsable_def isNullish_iff split: option.splits)
          define s3 where "s3 = fitBounds4326 E rw s2"
          obtain r4 s4 where l4: "loadLayerInViewport E l True s3 = (r4, s4)"
            by (cases "loadLayerInViewport E l True s3")
          from load_delta[OF l4] obtain d4 where d4: "delta s3 d4 s4" "filter isFit d4 = []"
            "\<forall>n. firstRequest QExtent n d4 = None"
            by blast
          have f: "fallbackOf E l s = s4"
            using l1 Inr True e2 r2' u rw l4 by (simp add: fallbackOf_def s3_def)
          have "delta s2 ([FitBounds rw] @ d4) s4"
            using fit_delta[of s2 rw E] d4(1) unfolding s3_def by (rule delta_trans)
          with d12 have dd: "delta s ((d1 @ [Query QExtent qx]) @ [FitBounds rw] @ d4) s4"
            by (rule delta_trans)
          have "fallbackSpec E (sent s) (d1 @ Query QExtent qx # FitBounds rw # d4)"
            using rem rw d1 d4 x12[of "FitBounds rw # d4"] w12[of "Query QExtent qx # FitBounds rw # d4"]
              v1 True
            by (simp add: fallbackSpec_def)
          with dd f show ?thesis by auto
        qed
      qed
    qed
  qed
qed


lemma rowClickTry_fresh_state:
  assumes "full l \<notin> loaded s"
  shows "snd (rowClickTry E l s) = fallbackOf E l s"
proof -
  obtain r1 s1 where l1: "loadLayerInViewport E l True s = (r1, s1)"
    by (cases "loadLayerInViewport E l True s")
  show ?thesis
  proof (cases r1)
    case (Inl err)
    then show ?thesis using assms l1 by (simp add: rowClickTry_def fallbackOf_def)
  next
    case (Inr fc)
    with count_loadLayerInViewport[OF l1] have c: "featureCount s1 = length fc" by simp
    show ?thesis using assms l1 Inr c
      by (simp add: rowClickTry_def fallbackOf_def Let_def split: prod.splits sum.splits)
  qed
qed

lemma runActive_as_load:
  "active s = Some l \<Longrightarrow> full l \<in> visible s \<Longrightarrow>
     runActiveViewportLoad E s =
       (case loadLayerInViewport E l True s of
          (Inl err, s1) \<Rightarrow> (Inl err, s1)
        | (Inr fc, s1) \<Rightarrow> (Inr (Some fc), s1))"
  by (simp add: runActiveViewportLoad_def)

lemma rowClickTry_loaded_state:
  assumes ld: "full l \<in> loaded s" and act: "active s = Some l" and vis: "full l \<in> visible s"
  shows "snd (rowClickTry E l s) = fallbackOf E l (emit (SetLayerVisible (full l) True) s)"
proof -
  define s0 where "s0 = emit (SetLayerVisible (full l) True) s"
  have a0: "active s0 = Some l" "full l \<in> visible s0" using act vis by (simp_all add: s0_def emit_def)
  obtain r1 s1 where l1: "loadLayerInViewport E l True s0 = (r1, s1)"
    by (cases "loadLayerInViewport E l True s0")
  note e1 = engineStep_loadLayerInViewport[OF l1]
  show ?thesis
  proof (cases r1)
    case (Inl err)
    then show ?thesis using ld l1 a0
      by (simp add: rowClickTry_def fallbackOf_def Let_def s0_def[symmetric] runActive_as_load)
  next
    case (Inr fc)
    show ?thesis
    proof (cases "fc = []")
      case False
      then show ?thesis using ld l1 a0 Inr
        by (simp add: rowClickTry_def fallbackOf_def Let_def s0_def[symmetric] runActive_as_load)
    next
      case True
      obtain r2 s2 where e2: "getLayerExtent4326 E l s1 = (r2, s2)"
        by (cases "getLayerExtent4326 E l s1")
      note g2 = engineStep_getLayerExtent4326[OF e2]
      show ?thesis
      proof (cases r2)
        case (Inl err)
        then show ?thesis using ld l1 a0 Inr True e2
          by (simp add: rowClickTry_def fallbackOf_def Let_def s0_def[symmetric] runActive_as_load)
      next
        case ext: (Inr ext)
        define s3 where "s3 = fitBounds4326 E (the ext) s2"
        have a3: "active s3 = Some l" "full l \<in> visible s3"
          using a0 e1 g2 count_fitBounds4326[of E "the ext" s2] by (simp_all add: s3_def engineStep_def)
        show ?thesis using ld l1 a0 Inr True e2 ext runActive_as_load[OF a3, of E]
          by (simp add: rowClickTry_def fallbackOf_def Let_def s0_def[symmetric] runActive_as_load
              s3_def[symmetric] split: prod.splits sum.splits)
      qed
    qed
  qed
qed

lemma initLoad_state:
  assumes "activeHasData s"
  shows "snd (initLoad E s) = fallbackOf E (the (active s)) s"
proof -
  define a where "a = the (active s)"
  obtain r1 s1 where l1: "loadLayerInViewport E a True s = (r1, s1)"
    by (cases "loadLayerInViewport E a True s")
  have a1: "the (active s1) = a"
    using engineStep_loadLayerInViewport[OF l1] by (simp add: engineStep_def a_def)
  show ?thesis
  proof (cases r1)
    case (Inl err)
    then show ?thesis using assms l1 by (simp add: initLoad_def fallbackOf_def a_def[symmetric])
  next
    case (Inr fc)
    obtain r2 s2 where e2: "getLayerExtent4326 E a s1 = (r2, s2)"
      by (cases "getLayerExtent4326 E a s1")
    have a2: "the (active s2) = a"
      using engineStep_getLayerExtent4326[OF e2] a1 by (simp add: engineStep_def)
    have a3: "\<And>x. the (active (fitBounds4326 E x s2)) = a"
      using a2 count_fitBounds4326 by simp
    show ?thesis using assms l1 Inr e2 a1 a3
      by (simp add: initLoad_def fallbackOf_def Let_def a_def[symmetric] split: prod.splits sum.splits)
  qed
qed

lemma delta_fields:
  "trace t = trace s \<Longrightarrow> sent t = sent s \<Longrightarrow> delta t d u = delta s d u"
  by (simp add: delta_def)

lemma spec_rowClick: "\<exists>d. delta s d (rowClick E i s) \<and> fallbackSpec E (sent s) d"
proof (cases "i < length (rows s)")
  case False
  then have "rowClick E i s = s" by (simp add: rowClick_def)
  then show ?thesis using delta_refl[of s] fallbackSpec_quiet[of "[]" E "sent s"] by auto
next
  case n: True
  define l where "l = r_layer (rows s ! i)"
  define s1 where "s1 = renderLayerList (layerSearch s) (s\<lparr>active := Some l\<rparr>)"
  have t1: "trace s1 = trace s" "sent s1 = sent s" by (simp_all add: s1_def render_fields)
  show ?thesis
  proof (cases "r_emptyGeom (rows s ! i)")
    case True
    then have "rowClick E i s = s1\<lparr>activeLayerLabel := full l, featureCount := 0, srcBadge := ''viewport''\<rparr>"
      using n by (simp add: rowClick_def Let_def l_def s1_def)
    then have "delta s [] (rowClick E i s)" using t1 by (simp add: delta_def)
    then show ?thesis using fallbackSpec_quiet[of "[]" E "sent s"] by auto
  next
    case False
    define s2 where "s2 = s1\<lparr>visible := insert (full l) (visible s1)\<rparr>"
    have t2: "trace s2 = trace s" "sent s2 = sent s" "active s2 = Some l" "full l \<in> visible s2"
      using t1 by (simp_all add: s2_def s1_def render_fields)
    obtain r s3 where t: "rowClickTry E l s2 = (r, s3)" by (cases "rowClickTry E l s2")
    have "\<exists>d. delta s d s3 \<and> fallbackSpec E (sent s) d"
    proof (cases "full l \<in> loaded s2")
      case False
      then have "s3 = fallbackOf E l s2" using rowClickTry_fresh_state[of l s2 E] t by simp
      with fallbackOf_spec[of s2 E l] show ?thesis using t2 by (simp add: delta_def)
    next
      case True
      define s0 where "s0 = emit (SetLayerVisible (full l) True) s2"
      have d0: "delta s [SetLayerVisible (full l) True] s0"
        using t2 by (simp add: s0_def emit_def delta_def)
      have "s3 = fallbackOf E l s0"
        using rowClickTry_loaded_state[OF True t2(3,4), of E] t by (simp add: s0_def)
      with fallbackOf_spec[of s0 E l] obtain d where d: "delta s0 d s3" "fallbackSpec E (sent s0) d"
        by auto
      have "delta s ([SetLayerVisible (full l) True] @ d) s3" by (rule delta_trans[OF d0 d(1)])
      moreover have "fallbackSpec E (sent s) ([SetLayerVisible (full l) True] @ d)"
        by (rule fallbackSpec_prefix) (use d(2) d0 in \<open>simp_all add: quiet_def delta_def\<close>)
      ultimately show ?thesis by blast
    qed
    then obtain d where d: "delta s d s3" "fallbackSpec E (sent s) d" by blast
    have rc: "rowClick E i s = (case r of Inl err \<Rightarrow> alert err s3 | Inr u \<Rightarrow> s3)"
      using n False t by (simp add: rowClick_def Let_def l_def s1_def s2_def)
    show ?thesis
    proof (cases r)
      case (Inl err)
      have "delta s3 [Alert err] (alert err s3)" by (simp add: alert_def emit_def delta_def)
      with d(1) have "delta s (d @ [Alert err]) (alert err s3)" by (rule delta_trans)
      moreover have "fallbackSpec E (sent s) (d @ [Alert err])"
        by (rule fallbackSpec_suffix) (use d(2) in \<open>simp_all add: quiet_def\<close>)
      ultimately show ?thesis using rc Inl by auto
    next
      case (Inr u)
      with rc d show ?thesis by auto
    qed
  qed
qed

lemma hydrate_delta:
  "hydrateGeomCounts E ls s = (r, s') \<Longrightarrow> \<exists>d. delta s d s' \<and> (\<forall>e\<in>set d. quiet e)"
  by (auto simp: hydrateGeomCounts_def Let_def postJson_def emit_def delta_def quiet_def
      split: if_splits prod.splits sum.splits)

lemma initSelect_delta: "\<exists>d. delta s d (initSelect E s) \<and> (\<forall>e\<in>set d. quiet e)"
proof -
  obtain r t where h: "hydrateGeomCounts E (layers s) s = (r, t)"
    by (cases "hydrateGeomCounts E (layers s) s")
  from hydrate_delta[OF h] obtain d where d: "delta s d t" "\<forall>e\<in>set d. quiet e" by blast
  define s2 where "s2 = (case r of Inl err \<Rightarrow> t | Inr ls' \<Rightarrow> t\<lparr>layers := ls'\<rparr>)"
  have d2: "delta s d s2" using d(1) by (cases r) (simp_all add: s2_def delta_def)
  have "delta s2 (if order s2 \<noteq> [] then [] else [ApplyOrder (map full (layers s2))]) (initSelect E s)"
    using h
    by (cases r)
      (simp_all add: initSelect_def Let_def s2_def render_fields ensureOrderInitialized_def
        applyOrderToMap_def emit_def delta_def)
  with d2 have "delta s (d @ (if order s2 \<noteq> [] then [] else [ApplyOrder (map full (layers s2))])) (initSelect E s)"
    by (rule delta_trans)
  moreover have "\<forall>e\<in>set (d @ (if order s2 \<noteq> [] then [] else [ApplyOrder (map full (layers s2))])). quiet e"
    using d(2) by (simp add: quiet_def)
  ultimately show ?thesis by blast
qed

lemma spec_initLoad: "\<exists>d. delta s d (snd (initLoad E s)) \<and> fallbackSpec E (sent s) d"
proof (cases "activeHasData s")
  case True
  then show ?thesis using fallbackOf_spec[of s E "the (active s)"] by (simp add: initLoad_state)
next
  case False
  then have "delta s [] (snd (initLoad E s))"
    by (simp add: initLoad_def delta_def split: option.splits)
  then show ?thesis using fallbackSpec_quiet[of "[]" E "sent s"] by auto
qed

lemma spec_init: "\<exists>d. delta s d (snd (init E rep s)) \<and> fallbackSpec E (sent s) d"
proof (cases "loadLayerCatalog rep")
  case (Inl err)
  then have "snd (init E rep s) = s" by (simp add: init_def)
  then show ?thesis using delta_refl[of s] fallbackSpec_quiet[of "[]" E "sent s"] by auto
next
  case (Inr ls)
  show ?thesis
  proof (cases "ls = []")
    case True
    then have "delta s [] (snd (init E rep s))" using Inr by (simp add: init_def delta_def)
    then show ?thesis using fallbackSpec_quiet[of "[]" E "sent s"] by auto
  next
    case False
    define s1 where "s1 = s\<lparr>layers := ls\<rparr>"
    define s6 where "s6 = initSelect E s1"
    from initSelect_delta[of s1 E] obtain d0 where d0: "delta s1 d0 s6" "\<forall>e\<in>set d0. quiet e"
      by (auto simp: s6_def)
    then have d0': "delta s d0 s6" by (simp add: delta_def s1_def)
    from spec_initLoad[of s6 E] obtain d where d: "delta s6 d (snd (initLoad E s6))"
      "fallbackSpec E (sent s6) d" by blast
    have "delta s (d0 @ d) (snd (initLoad E s6))" by (rule delta_trans[OF d0' d(1)])
    moreover have "fallbackSpec E (sent s) (d0 @ d)"
      by (rule fallbackSpec_prefix[OF d0(2)]) (use d(2) d0' in \<open>simp add: delta_def\<close>)
    moreover have "snd (init E rep s) = snd (initLoad E s6)"
      using Inr False by (simp add: init_def s1_def s6_def)
    ultimately show ?thesis by auto
  qed
qed


lemma fitCalls_delta: "delta s d s' \<Longrightarrow> fitCalls s' = fitCalls s + length (filter isFit d)"
  by (simp add: delta_def fitCalls_def)

text \<open>
  Claim C6. From every state, one row click, and likewise all of \<^verbatim>\<open>init\<close>, sends at
  most two viewport requests and at most one extent request and asks the surface to fit
  at most once; a fit is always followed by exactly one more viewport request, and there
  is no second viewport request without a fit. The extent is requested exactly when the
  first viewport request was answered without any feature. The surface is asked to fit
  exactly when the extent request was sent and answered with a first row whose
  \<^verbatim>\<open>west\<close> is not \<^verbatim>\<open>null\<close>, and it is asked to fit that row: when the extent request
  fails, or its reply has no row, or the row has no \<^verbatim>\<open>west\<close>, there is no fit and so no
  retry. The fallback never runs twice.
\<close>

theorem extent_fallback_runs_at_most_once:
  assumes "s' = rowClick E i s \<or> s' = snd (init E rep s)"
  shows "viewportQueries s' \<le> viewportQueries s + 2 \<and> extentQueries s' \<le> extentQueries s + 1
      \<and> fitCalls s' \<le> fitCalls s + 1
      \<and> (fitCalls s' = fitCalls s + 1 \<longrightarrow>
            extentQueries s' = extentQueries s + 1 \<and> viewportQueries s' = viewportQueries s + 2)
      \<and> (viewportQueries s' = viewportQueries s + 2 \<longrightarrow> fitCalls s' = fitCalls s + 1)
      \<and> (extentQueries s' = extentQueries s + 1 \<longrightarrow> viewportQueries s' = viewportQueries s + 1
            \<or> viewportQueries s' = viewportQueries s + 2)
      \<and> trace s' = trace s @ since s s'
      \<and> fitCalls s' = fitCalls s + length (filter isFit (since s s'))
      \<and> filter isFit (since s s') =
          (case firstRequest QExtent (sent s) (since s s') of
             None \<Rightarrow> []
           | Some (m, q) \<Rightarrow>
               (case remote E m q of
                  Inl err \<Rightarrow> []
                | Inr data \<Rightarrow>
                    (case firstRow data of
                       None \<Rightarrow> []
                     | Some r \<Rightarrow>
                         if r ''west'' = None \<or> r ''west'' = Some JNull then []
                         else [FitBounds r])))
      \<and> (firstRequest QExtent (sent s) (since s s') \<noteq> None) =
          (\<exists>m q data. firstRequest QViewport (sent s) (since s s') = Some (m, q)
             \<and> remote E m q = Inr data \<and> rowsToFeatureCollection E (rowsOf data) = [])"
proof -
  from assms have b: "fallbackBound s s'" using fallback_rowClick fallback_init by blast
  from assms obtain d where d: "delta s d s'" "fallbackSpec E (sent s) d"
    using spec_rowClick spec_init by blast
  have sd: "since s s' = d" by (rule delta_since[OF d(1)])
  have t: "trace s' = trace s @ since s s'" using d(1) by (simp add: sd delta_def)
  have f: "fitCalls s' = fitCalls s + length (filter isFit (since s s'))"
    using fitCalls_delta[OF d(1)] by (simp add: sd)
  from d(2) have sp: "filter isFit (since s s') =
          (case firstRequest QExtent (sent s) (since s s') of
             None \<Rightarrow> []
           | Some (m, q) \<Rightarrow>
               (case remote E m q of
                  Inl err \<Rightarrow> []
                | Inr data \<Rightarrow>
                    (case firstRow data of
                       None \<Rightarrow> []
                     | Some r \<Rightarrow>
                         if r ''west'' = None \<or> r ''west'' = Some JNull then []
                         else [FitBounds r])))"
    and tr: "(firstRequest QExtent (sent s) (since s s') \<noteq> None) =
          (\<exists>m q data. firstRequest QViewport (sent s) (since s s') = Some (m, q)
             \<and> remote E m q = Inr data \<and> rowsToFeatureCollection E (rowsOf data) = [])"
    unfolding sd fallbackSpec_def by blast+
  from b have c: "viewportQueries s' \<le> viewportQueries s + 2 \<and> extentQueries s' \<le> extentQueries s + 1
      \<and> fitCalls s' \<le> fitCalls s + 1
      \<and> (fitCalls s' = fitCalls s + 1 \<longrightarrow>
            extentQueries s' = extentQueries s + 1 \<and> viewportQueries s' = viewportQueries s + 2)
      \<and> (viewportQueries s' = viewportQueries s + 2 \<longrightarrow> fitCalls s' = fitCalls s + 1)
      \<and> (extentQueries s' = extentQueries s + 1 \<longrightarrow> viewportQueries s' = viewportQueries s + 1
            \<or> viewportQueries s' = viewportQueries s + 2)"
    unfolding fallbackBound_def .
  from c t f sp tr show ?thesis by blast
qed

text \<open>
  A row click on the loaded layer \<^verbatim>\<open>public.b\<close>. Against a service whose replies hold
  an extent and no shape: two viewport requests, one extent request, one fit, of that
  extent. Against a service whose replies hold a row of nulls: the extent is requested,
  nothing is fitted, and there is one viewport request only. And the numbers for
  \<^verbatim>\<open>init\<close> against the first service.
\<close>

theorem extent_fallback_runs_at_most_once_witness:
  "viewportQueries (rowClick (exEnv exExtents) 1 exStarted) = viewportQueries exStarted + 2
   \<and> extentQueries (rowClick (exEnv exExtents) 1 exStarted) = extentQueries exStarted + 1
   \<and> fitCalls (rowClick (exEnv exExtents) 1 exStarted) = fitCalls exStarted + 1
   \<and> filter isFit (since exStarted (rowClick (exEnv exExtents) 1 exStarted)) = [FitBounds exExtent]
   \<and> filter isFit (since exStarted (rowClick (exEnv exNulls) 1 exStarted)) = []
   \<and> extentQueries (rowClick (exEnv exNulls) 1 exStarted) = extentQueries exStarted + 1
   \<and> viewportQueries (rowClick (exEnv exNulls) 1 exStarted) = viewportQueries exStarted + 1
   \<and> viewportQueries (snd (init (exEnv exRemote) (Inr exCatalog) (initial exView))) = 2
   \<and> extentQueries (snd (init (exEnv exRemote) (Inr exCatalog) (initial exView))) = 1
   \<and> fitCalls (snd (init (exEnv exRemote) (Inr exCatalog) (initial exView))) = 1"
proof -
  have f: "fitCalls (rowClick (exEnv exExtents) 1 exStarted) = fitCalls exStarted + 1"
    by (simp add: exStarted_fields ex_defs model_defs Let_def count_defs)
  note t = extent_fallback_runs_at_most_once[of "rowClick (exEnv exExtents) 1 exStarted"
      "exEnv exExtents" 1 exStarted, OF disjI1[OF refl]]
  from t f
  have a: "extentQueries (rowClick (exEnv exExtents) 1 exStarted) = extentQueries exStarted + 1
     \<and> viewportQueries (rowClick (exEnv exExtents) 1 exStarted) = viewportQueries exStarted + 2"
    by blast
  have x: "filter isFit (since exStarted (rowClick (exEnv exExtents) 1 exStarted)) = [FitBounds exExtent]"
    by (simp add: since_def exStarted_fields ex_defs model_defs Let_def)
  have n: "filter isFit (since exStarted (rowClick (exEnv exNulls) 1 exStarted)) = []"
    "extentQueries (rowClick (exEnv exNulls) 1 exStarted) = extentQueries exStarted + 1"
    "viewportQueries (rowClick (exEnv exNulls) 1 exStarted) = viewportQueries exStarted + 1"
    by (simp_all add: since_def exStarted_fields ex_defs model_defs Let_def count_defs)
  from a f x n exStarted_counts(1-3) show ?thesis by (simp add: exStarted_def)
qed

section \<open>A check box whose load fails\<close>

lemma load_failed_fields:
  "loadLayerInViewport E l u s = (Inl err, s') \<Longrightarrow>
     loaded s' = loaded s \<and> visible s' = visible s \<and> rows s' = rows s"
  by (auto simp: loadLayerInViewport_def getLayerSrid_def postJson_def emit_def Let_def
      split: option.splits sum.splits prod.splits)

text \<open>
  Claim C8, as the code has it. The user checks the unchecked, enabled box of a layer
  that is not loaded, and the viewport load fails. Then the layer is not visible
  afterwards (the visible set is the one before the click without this layer), the box
  is unchecked again, the failure has been shown to the user, and the layer is still not
  loaded. The visible set is the same as before the click when the layer was not
  visible before it.
\<close>

theorem failed_toggle_is_rolled_back:
  assumes "i < length (rows s)" and "\<not> r_disabled (rows s ! i)" and "\<not> r_checked (rows s ! i)"
    and "lid = full (r_layer (rows s ! i))" and "lid \<notin> loaded s"
    and "fst (loadLayerInViewport E (r_layer (rows s ! i)) (r_isActive (rows s ! i))
           ((setChecked i True s)\<lparr>visible := insert lid (visible s)\<rparr>)) = Inl err"
    and "s' = toggleCheckbox E i s"
  shows "visible s' = visible s - {lid} \<and> \<not> r_checked (rows s' ! i) \<and> last (trace s') = Alert err
     \<and> lid \<notin> loaded s' \<and> (lid \<notin> visible s \<longrightarrow> visible s' = visible s)"
proof -
  define t where "t = setChecked i True s"
  define s1 where "s1 = t\<lparr>visible := insert lid (visible t)\<rparr>"
  have lid: "full (r_layer (rows s ! i)) = lid" using assms(4) by simp
  have t: "r_checked (rows t ! i)" "r_layer (rows t ! i) = r_layer (rows s ! i)"
    "r_isActive (rows t ! i) = r_isActive (rows s ! i)" "visible t = visible s"
    "loaded t = loaded s" "length (rows t) = length (rows s)"
    using assms(1) by (simp_all add: t_def setChecked_def)
  have s1: "s1 = (setChecked i True s)\<lparr>visible := insert lid (visible s)\<rparr>"
    by (simp add: s1_def t_def setChecked_def)
  obtain s2 where l: "loadLayerInViewport E (r_layer (rows s ! i)) (r_isActive (rows s ! i)) s1 = (Inl err, s2)"
    using assms(6) unfolding s1[symmetric]
    by (cases "loadLayerInViewport E (r_layer (rows s ! i)) (r_isActive (rows s ! i)) s1") simp
  note f = load_failed_fields[OF l]
  have "cbChange E i t =
      (case loadLayerInViewport E (r_layer (rows s ! i)) (r_isActive (rows s ! i)) s1 of
         (Inl err, s2) \<Rightarrow> alert err (setChecked i False (s2\<lparr>visible := visible s2 - {lid}\<rparr>))
       | (Inr fc, s2) \<Rightarrow> s2)"
    unfolding cbChange_def Let_def using t lid assms(5)
    by (simp add: s1_def split: prod.splits sum.splits)
  with l have "cbChange E i t = alert err (setChecked i False (s2\<lparr>visible := visible s2 - {lid}\<rparr>))"
    by simp
  moreover have "s' = cbChange E i t"
    using assms(1,2,3,7) by (simp add: toggleCheckbox_def t_def)
  ultimately have e: "s' = alert err (setChecked i False (s2\<lparr>visible := visible s2 - {lid}\<rparr>))"
    by simp
  have n2: "i < length (rows s2)" using f t assms(1) by (simp add: s1_def)
  have "visible s' = visible s - {lid}"
    using f t by (auto simp: e alert_def emit_def setChecked_def s1_def)
  moreover have "\<not> r_checked (rows s' ! i)"
    using n2 by (simp add: e alert_def emit_def setChecked_def)
  moreover have "last (trace s') = Alert err"
    by (simp add: e alert_def emit_def setChecked_def)
  moreover have "lid \<notin> loaded s'"
    using f t assms(5) by (simp add: e alert_def emit_def setChecked_def s1_def)
  ultimately show ?thesis by auto
qed

lemma exStartedDown_fields:
  "visible exStartedDown = {''public.a''}"
  "loaded exStartedDown = {}"
  "sridCache exStartedDown = Map.empty"
  "sent exStartedDown = 2"
  "rows exStartedDown =
     [\<lparr>r_layer = exLayer ''a'' None, r_isActive = True, r_emptyGeom = False,
        r_checked = True, r_disabled = False\<rparr>,
      \<lparr>r_layer = exLayer ''b'' None, r_isActive = False, r_emptyGeom = False,
        r_checked = False, r_disabled = False\<rparr>]"
  "layers exStartedDown = [exLayer ''a'' None, exLayer ''b'' None]"
  "layerSearch exStartedDown = []"
  by (simp_all add: exStartedDown_def ex_defs model_defs Let_def)

text \<open>
  The service is down: checking the box of \<^verbatim>\<open>public.b\<close> after start-up leaves
  \<^verbatim>\<open>public.a\<close> alone visible, the box unchecked and the message shown.
\<close>

theorem failed_toggle_is_rolled_back_witness:
  "visible exStartedDown = {''public.a''}
   \<and> visible (toggleCheckbox (exEnv exDown) 1 exStartedDown) = {''public.a''}
   \<and> \<not> r_checked (rows (toggleCheckbox (exEnv exDown) 1 exStartedDown) ! 1)
   \<and> last (trace (toggleCheckbox (exEnv exDown) 1 exStartedDown)) = Alert ''down''"
proof -
  have h: "1 < length (rows exStartedDown)" "\<not> r_disabled (rows exStartedDown ! 1)"
    "\<not> r_checked (rows exStartedDown ! 1)" "''public.b'' = full (r_layer (rows exStartedDown ! 1))"
    "''public.b'' \<notin> loaded exStartedDown"
    by (simp_all add: exStartedDown_fields exLayer_def)
  have l: "fst (loadLayerInViewport (exEnv exDown) (r_layer (rows exStartedDown ! 1))
           (r_isActive (rows exStartedDown ! 1))
           ((setChecked 1 True exStartedDown)\<lparr>visible := insert ''public.b'' (visible exStartedDown)\<rparr>))
         = Inl ''down''"
    by (simp add: exStartedDown_fields ex_defs model_defs Let_def)
  from failed_toggle_is_rolled_back[OF h l refl]
  show ?thesis by (simp add: exStartedDown_fields)
qed

text \<open>
  Claim C8 as stated (the visible set is the same as before the toggle) fails after a
  row click whose load failed: the click has made \<^verbatim>\<open>public.b\<close> visible and left its
  box unchecked (the list is rendered before the layer is added), so the failed toggle
  takes out of the visible set a layer that was in it.
\<close>

theorem failed_toggle_can_hide_a_visible_layer:
  "\<not> r_checked (rows (rowClick (exEnv exDown) 1 exStartedDown) ! 1)
   \<and> \<not> r_disabled (rows (rowClick (exEnv exDown) 1 exStartedDown) ! 1)
   \<and> ''public.b'' \<notin> loaded (rowClick (exEnv exDown) 1 exStartedDown)
   \<and> visible (rowClick (exEnv exDown) 1 exStartedDown) = {''public.a'', ''public.b''}
   \<and> visible (toggleCheckbox (exEnv exDown) 1 (rowClick (exEnv exDown) 1 exStartedDown)) = {''public.a''}
   \<and> visible (toggleCheckbox (exEnv exDown) 1 (rowClick (exEnv exDown) 1 exStartedDown))
       \<noteq> visible (rowClick (exEnv exDown) 1 exStartedDown)"
  by (simp add: exStartedDown_fields ex_defs model_defs Let_def insert_commute)

end
